theory Spec2Isabelle
  imports Main "HOL-Library.Multiset"
begin

section \<open>Constants (GAME\_CONFIG)\<close>

datatype game_state =
  WELCOME | TEAM_SELECTION | GET_READY | PLAYING | REVIEW | ROUND_OVER | GAME_OVER

definition COUNTDOWN_DURATION :: int where
  "COUNTDOWN_DURATION = 10"

definition DEFAULT_ROUND_DURATION :: int where
  "DEFAULT_ROUND_DURATION = 30"

definition MAX_ROUNDS_PER_TEAM :: nat where
  "MAX_ROUNDS_PER_TEAM = 3"

definition TEAM_COLORS :: "string list" where
  "TEAM_COLORS =
     [''var(--team1-color)'', ''var(--team2-color)'', ''var(--team3-color)'', ''var(--team4-color)'']"

section \<open>Data model\<close>

text \<open>
  A card as it is loaded (\<open>cards.json\<close>) and a card of the pool, which carries the deck it
  was taken from (\<open>{...card, category: deck}\<close>).
\<close>

record raw_card =
  targetWord :: string
  forbiddenWords :: "string list"

record card = raw_card +
  category :: string

datatype status = Correct | Skipped

record round_card =
  word :: string
  status :: status

text \<open>\<open>color\<close> is \<open>None\<close> where JavaScript stores \<open>undefined\<close>.\<close>

record team =
  name :: string
  score :: nat
  color :: "string option"

text \<open>
  \<open>currentTeamIndex\<close> is the one number of the session that can leave the integers: the
  remainder \<open>x % 0\<close> is \<open>NaN\<close>.
\<close>

datatype jsnum = Num nat | NaN

text \<open>The two callbacks the game manager registers with \<open>setInterval\<close>.\<close>

datatype callback = CountdownTick | TimerTick

datatype error = TypeError

text \<open>
  The fields of \<open>GameManager\<close>, followed by the part of the browser the class acts on:
  the live intervals with their handles, the handle \<open>setInterval\<close> returns next, the
  messages shown by \<open>alert\<close>, and whether the document has an element
  \<open>next-round-btn\<close>. \<open>pauseOverlay\<close> is \<open>None\<close> when the document has no element
  \<open>pause-overlay\<close> and otherwise holds the element's \<open>style.display\<close>.
  \<open>selectedDecks\<close> is a JavaScript \<open>Set\<close>: its elements in insertion order, each once.
  Counters that only go up from 0 are natural numbers; times, which count down and may be
  set to any number, are integers.
  Calls into the UI manager and the sound manager change no field of the game manager and
  are left out; what can throw is the game manager itself, reading \<open>name\<close> or \<open>score\<close> of
  a team that is \<open>undefined\<close>.
\<close>

record game =
  cardData :: "string \<rightharpoonup> raw_card list"
  state :: game_state
  roundDuration :: int
  roundScore :: nat
  timeLeft :: int
  countdownTime :: int
  timerInterval :: "nat option"
  countdownInterval :: "nat option"
  shuffledCards :: "card list"
  currentCardIndex :: nat
  roundCards :: "round_card list"
  numberOfTeams :: nat
  teams :: "team list"
  currentTeamIndex :: jsnum
  totalRoundsCompleted :: nat
  selectedDecks :: "string list"
  isPaused :: bool
  pauseOverlay :: "string option"
  intervals :: "(nat \<times> callback) list"
  nextHandle :: nat
  alerts :: "string list"
  nextRoundBtn :: bool

text \<open>
  A method either returns or throws; a throw leaves the session as it was at the throwing
  statement.
\<close>

datatype outcome = Returned game | Raised error game

fun state_of :: "outcome \<Rightarrow> game" where
  "state_of (Returned g) = g"
| "state_of (Raised e g) = g"

section \<open>The browser: intervals\<close>

definition clearInterval :: "nat option \<Rightarrow> game \<Rightarrow> game" where
  "clearInterval h g = g\<lparr>intervals := filter (\<lambda>(k, cb). Some k \<noteq> h) (intervals g)\<rparr>"

definition setInterval :: "callback \<Rightarrow> game \<Rightarrow> nat \<times> game" where
  "setInterval cb g =
     (nextHandle g,
      g\<lparr>intervals := intervals g @ [(nextHandle g, cb)], nextHandle := nextHandle g + 1\<rparr>)"

section \<open>utils.js\<close>

text \<open>
  \<open>shuffleArray\<close>: \<open>rnd i\<close> stands for the draw \<open>Math.random()\<close> at loop index \<open>i\<close>;
  \<open>Math.floor(Math.random() * (i + 1))\<close> is a number of \<open>{0..i}\<close>, here
  \<open>rnd i mod (i + 1)\<close>.
\<close>

definition swap :: "nat \<Rightarrow> nat \<Rightarrow> 'a list \<Rightarrow> 'a list" where
  "swap i j xs = (xs[i := xs ! j])[j := xs ! i]"

fun shuffleLoop :: "(nat \<Rightarrow> nat) \<Rightarrow> nat \<Rightarrow> 'a list \<Rightarrow> 'a list" where
  "shuffleLoop rnd 0 xs = xs"
| "shuffleLoop rnd (Suc i) xs = shuffleLoop rnd i (swap (Suc i) (rnd (Suc i) mod (Suc i + 1)) xs)"

definition shuffleArray :: "(nat \<Rightarrow> nat) \<Rightarrow> 'a list \<Rightarrow> 'a list" where
  "shuffleArray rnd xs = shuffleLoop rnd (length xs - 1) xs"

section \<open>game-manager.js\<close>

definition newGame :: "(string \<rightharpoonup> raw_card list) \<Rightarrow> string option \<Rightarrow> bool \<Rightarrow> game" where
  "newGame cd overlay btn =
     \<lparr>cardData = cd, state = WELCOME, roundDuration = DEFAULT_ROUND_DURATION, roundScore = 0,
      timeLeft = DEFAULT_ROUND_DURATION, countdownTime = COUNTDOWN_DURATION,
      timerInterval = None, countdownInterval = None,
      shuffledCards = [], currentCardIndex = 0, roundCards = [],
      numberOfTeams = 0, teams = [], currentTeamIndex = Num 0, totalRoundsCompleted = 0,
      selectedDecks = [''naija''], isPaused = False, pauseOverlay = overlay,
      intervals = [], nextHandle = 1, alerts = [], nextRoundBtn = btn\<rparr>"

definition setRoundDuration :: "int \<Rightarrow> game \<Rightarrow> game" where
  "setRoundDuration duration g = g\<lparr>roundDuration := duration\<rparr>"

text \<open>\<open>toggleDeck\<close> returns its boolean together with the session.\<close>

definition toggleDeck :: "string \<Rightarrow> game \<Rightarrow> bool \<times> game" where
  "toggleDeck deck g =
     (if deck \<in> set (selectedDecks g) then
        (if length (selectedDecks g) > 1
         then (True, g\<lparr>selectedDecks := removeAll deck (selectedDecks g)\<rparr>)
         else (False, g))
      else (True, g\<lparr>selectedDecks := selectedDecks g @ [deck]\<rparr>))"

text \<open>The decimal numeral of a number, as a template literal prints it.\<close>

definition digit :: "nat \<Rightarrow> char" where
  "digit d = ''0123456789'' ! d"

function showNat :: "nat \<Rightarrow> string" where
  "showNat n = (if n < 10 then [digit n] else showNat (n div 10) @ [digit (n mod 10)])"
  by pat_completeness auto
termination
  by (relation "measure id") auto

declare showNat.simps [simp del]

text \<open>Array read: \<open>undefined\<close> out of range.\<close>

definition at :: "'a list \<Rightarrow> nat \<Rightarrow> 'a option" where
  "at xs i = (if i < length xs then Some (xs ! i) else None)"

definition newTeam :: "nat \<Rightarrow> team" where
  "newTeam i = \<lparr>name = ''Team '' @ showNat (i + 1), score = 0, color = at TEAM_COLORS i\<rparr>"

text \<open>The loop \<open>for (let i = 0; i < this.numberOfTeams; i++) this.teams.push(...)\<close>.\<close>

function pushTeams :: "nat \<Rightarrow> nat \<Rightarrow> team list \<Rightarrow> team list" where
  "pushTeams i n ts = (if i < n then pushTeams (Suc i) n (ts @ [newTeam i]) else ts)"
  by pat_completeness auto
termination
  by (relation "measure (\<lambda>(i, n, ts). n - i)") auto

declare pushTeams.simps [simp del]

definition stamp :: "string \<Rightarrow> raw_card \<Rightarrow> card" where
  "stamp deck c = \<lparr>targetWord = targetWord c, forbiddenWords = forbiddenWords c, category = deck\<rparr>"

text \<open>
  \<open>selectedDecks.forEach(deck => { if (this.cardData[deck]) activeCards.push(...) })\<close>:
  an array, also an empty one, is truthy.
\<close>

fun activeCards :: "(string \<rightharpoonup> raw_card list) \<Rightarrow> string list \<Rightarrow> card list" where
  "activeCards cd [] = []"
| "activeCards cd (deck # decks) =
     (case cd deck of None \<Rightarrow> [] | Some cs \<Rightarrow> map (stamp deck) cs) @ activeCards cd decks"

definition teamAt :: "team list \<Rightarrow> jsnum \<Rightarrow> (nat \<times> team) option" where
  "teamAt ts k = (case k of NaN \<Rightarrow> None | Num i \<Rightarrow> map_option (Pair i) (at ts i))"

text \<open>\<open>(k + 1) % n\<close> for a number \<open>k\<close> that is not \<open>NaN\<close>.\<close>

definition succ_rem :: "nat \<Rightarrow> nat \<Rightarrow> jsnum" where
  "succ_rem i n = (if n = 0 then NaN else Num ((i + 1) mod n))"

definition showFinalWinner :: "game \<Rightarrow> game" where
  "showFinalWinner g = g\<lparr>state := GAME_OVER\<rparr>"

definition endRound :: "game \<Rightarrow> outcome" where
  "endRound g =
     (let g1 = clearInterval (timerInterval g) g in
      case teamAt (teams g1) (currentTeamIndex g1) of
        None \<Rightarrow> Raised TypeError g1
      | Some (i, t) \<Rightarrow>
          let g2 = g1\<lparr>teams := (teams g1)[i := t\<lparr>score := score t + roundScore g1\<rparr>],
                      currentTeamIndex := succ_rem i (numberOfTeams g1),
                      totalRoundsCompleted := totalRoundsCompleted g1 + 1\<rparr>
          in if totalRoundsCompleted g2 \<ge> numberOfTeams g2 * MAX_ROUNDS_PER_TEAM
             then Returned (showFinalWinner g2)
             else
               let g3 = g2\<lparr>state := ROUND_OVER\<rparr>
               in if nextRoundBtn g3 \<and> teamAt (teams g3) (currentTeamIndex g3) = None
                  then Raised TypeError g3
                  else Returned g3)"

definition updateCard :: "game \<Rightarrow> outcome" where
  "updateCard g =
     (case at (shuffledCards g) (currentCardIndex g) of
        None \<Rightarrow> endRound g
      | Some c \<Rightarrow> Returned g)"

definition showReviewScreen :: "game \<Rightarrow> game" where
  "showReviewScreen g = (let g1 = g\<lparr>state := REVIEW\<rparr> in clearInterval (timerInterval g1) g1)"

definition updateTimer :: "game \<Rightarrow> game" where
  "updateTimer g =
     (if isPaused g then g
      else
        let g1 = g\<lparr>timeLeft := timeLeft g - 1\<rparr>
        in if timeLeft g1 \<le> 0 then showReviewScreen g1 else g1)"

definition startRound :: "game \<Rightarrow> outcome" where
  "startRound g =
     (let g1 = g\<lparr>state := PLAYING, isPaused := False,
                  pauseOverlay := map_option (\<lambda>d. ''none'') (pauseOverlay g),
                  roundCards := [], roundScore := 0, timeLeft := roundDuration g\<rparr>
      in case teamAt (teams g1) (currentTeamIndex g1) of
           None \<Rightarrow> Raised TypeError g1
         | Some it \<Rightarrow>
             (case updateCard g1 of
                Raised e g2 \<Rightarrow> Raised e g2
              | Returned g2 \<Rightarrow>
                  (case setInterval TimerTick (clearInterval (timerInterval g2) g2) of
                     (h, g3) \<Rightarrow> Returned (g3\<lparr>timerInterval := Some h\<rparr>))))"

definition startCountdown :: "game \<Rightarrow> outcome" where
  "startCountdown g =
     (let g1 = g\<lparr>state := GET_READY, countdownTime := COUNTDOWN_DURATION\<rparr>
      in case teamAt (teams g1) (currentTeamIndex g1) of
           None \<Rightarrow> Raised TypeError g1
         | Some it \<Rightarrow>
             (case setInterval CountdownTick (clearInterval (countdownInterval g1) g1) of
                (h, g2) \<Rightarrow> Returned (g2\<lparr>countdownInterval := Some h\<rparr>)))"

text \<open>The callback of the countdown interval.\<close>

definition countdownTick :: "game \<Rightarrow> outcome" where
  "countdownTick g =
     (let g1 = g\<lparr>countdownTime := countdownTime g - 1\<rparr>
      in if countdownTime g1 \<le> 0
         then startRound (clearInterval (countdownInterval g1) g1)
         else Returned g1)"

definition skipCountdown :: "game \<Rightarrow> outcome" where
  "skipCountdown g = startRound (clearInterval (countdownInterval g) g)"

text \<open>
  \<open>setupAndStartGame(teamCount)\<close>, for the count \<open>parseInt\<close> reads from a team count
  button; \<open>rnd\<close> stands for the draws of the shuffle. The alert is appended to \<open>alerts\<close>.
\<close>

definition setupAndStartGame :: "nat \<Rightarrow> (nat \<Rightarrow> nat) \<Rightarrow> game \<Rightarrow> outcome" where
  "setupAndStartGame teamCount rnd g =
     (let g1 = g\<lparr>numberOfTeams := teamCount, teams := pushTeams 0 teamCount [],
                  currentTeamIndex := Num 0, totalRoundsCompleted := 0\<rparr>;
          active = activeCards (cardData g1) (selectedDecks g1)
      in if length active = 0
         then Returned (g1\<lparr>alerts := alerts g1 @ [''Please select at least one deck!'']\<rparr>)
         else startCountdown (g1\<lparr>shuffledCards := shuffleArray rnd active, currentCardIndex := 0\<rparr>))"

text \<open>\<open>nextCard\<close>, with the draws of the shuffle it may need.\<close>

definition nextCard :: "(nat \<Rightarrow> nat) \<Rightarrow> game \<Rightarrow> outcome" where
  "nextCard rnd g =
     (let g1 = g\<lparr>currentCardIndex := currentCardIndex g + 1\<rparr>;
          g2 = (if currentCardIndex g1 \<ge> length (shuffledCards g1)
                then g1\<lparr>shuffledCards :=
                           shuffleArray rnd (activeCards (cardData g1) (selectedDecks g1)),
                         currentCardIndex := 0\<rparr>
                else g1)
      in updateCard g2)"

definition handleCorrect :: "(nat \<Rightarrow> nat) \<Rightarrow> game \<Rightarrow> outcome" where
  "handleCorrect rnd g =
     (case at (shuffledCards g) (currentCardIndex g) of
        None \<Rightarrow> Returned g
      | Some c \<Rightarrow>
          nextCard rnd
            (g\<lparr>roundCards := roundCards g @ [\<lparr>word = targetWord c, status = Correct\<rparr>],
               roundScore := roundScore g + 1\<rparr>))"

definition handlePass :: "(nat \<Rightarrow> nat) \<Rightarrow> game \<Rightarrow> outcome" where
  "handlePass rnd g =
     (case at (shuffledCards g) (currentCardIndex g) of
        None \<Rightarrow> Returned g
      | Some c \<Rightarrow>
          nextCard rnd (g\<lparr>roundCards := roundCards g @ [\<lparr>word = targetWord c, status = Skipped\<rparr>]\<rparr>))"

definition togglePause :: "game \<Rightarrow> game" where
  "togglePause g =
     (if state g \<noteq> PLAYING then g
      else
        let g1 = g\<lparr>isPaused := \<not> isPaused g\<rparr>
        in if isPaused g1
           then (clearInterval (timerInterval g1) g1)
                  \<lparr>pauseOverlay := map_option (\<lambda>d. ''flex'') (pauseOverlay g1)\<rparr>
           else
             (case setInterval TimerTick
                     (g1\<lparr>pauseOverlay := map_option (\<lambda>d. ''none'') (pauseOverlay g1)\<rparr>) of
                (h, g2) \<Rightarrow> g2\<lparr>timerInterval := Some h\<rparr>))"

text \<open>
  \<open>this.roundCards[index]\<close> is \<open>undefined\<close> for every index that is not one of
  \<open>0, ..., length - 1\<close>.
\<close>

definition toggleCardStatus :: "int \<Rightarrow> game \<Rightarrow> game" where
  "toggleCardStatus index g =
     (if index < 0 then g
      else
        case at (roundCards g) (nat index) of
          None \<Rightarrow> g
        | Some item \<Rightarrow>
            g\<lparr>roundCards := (roundCards g)
                 [nat index := item\<lparr>status := (if status item = Correct then Skipped else Correct)\<rparr>]\<rparr>)"

definition confirmScore :: "game \<Rightarrow> outcome" where
  "confirmScore g =
     endRound (g\<lparr>roundScore := length (filter (\<lambda>c. status c = Correct) (roundCards g))\<rparr>)"

definition resetGame :: "game \<Rightarrow> game" where
  "resetGame g =
     (clearInterval (countdownInterval g) (clearInterval (timerInterval g) g))
       \<lparr>state := TEAM_SELECTION, totalRoundsCompleted := 0\<rparr>"

text \<open>\<open>quitGame\<close>: \<open>confirmed\<close> is the answer to the \<open>confirm\<close> dialogue.\<close>

definition quitGame :: "bool \<Rightarrow> game \<Rightarrow> game" where
  "quitGame confirmed g =
     (if confirmed
      then (clearInterval (countdownInterval g) (clearInterval (timerInterval g) g))
             \<lparr>isPaused := False, pauseOverlay := map_option (\<lambda>d. ''none'') (pauseOverlay g),
              state := WELCOME, totalRoundsCompleted := 0, currentCardIndex := 0, roundScore := 0\<rparr>
      else g)"

section \<open>The wiring of the application\<close>

text \<open>
  The handlers the entry point attaches to the buttons, the global \<open>window.toggleCardStatus\<close>,
  and the firing of a live interval. None of the handlers looks at the phase of the game.
  \<open>Fire h\<close> does nothing when no live interval has the handle \<open>h\<close>.
\<close>

datatype event =
    PlayNowBtn
  | NextRoundBtn
  | NewGameBtn
  | SkipCountdownBtn
  | CorrectBtn "nat \<Rightarrow> nat"
  | PassBtn "nat \<Rightarrow> nat"
  | ConfirmScoreBtn
  | PauseBtn
  | QuitBtn bool
  | TeamCountBtn nat "nat \<Rightarrow> nat"
  | DeckOption string
  | TimerBtn int
  | ToggleCardStatus int
  | Fire nat

fun step :: "event \<Rightarrow> game \<Rightarrow> outcome" where
  "step PlayNowBtn g = Returned (g\<lparr>state := TEAM_SELECTION\<rparr>)"
| "step NextRoundBtn g = startCountdown g"
| "step NewGameBtn g = Returned (resetGame g)"
| "step SkipCountdownBtn g = skipCountdown g"
| "step (CorrectBtn rnd) g = handleCorrect rnd g"
| "step (PassBtn rnd) g = handlePass rnd g"
| "step ConfirmScoreBtn g = confirmScore g"
| "step PauseBtn g = Returned (togglePause g)"
| "step (QuitBtn confirmed) g = Returned (quitGame confirmed g)"
| "step (TeamCountBtn n rnd) g = setupAndStartGame n rnd g"
| "step (DeckOption deck) g = Returned (snd (toggleDeck deck g))"
| "step (TimerBtn duration) g = Returned (setRoundDuration duration g)"
| "step (ToggleCardStatus index) g = Returned (toggleCardStatus index g)"
| "step (Fire h) g =
     (case map_of (intervals g) h of
        None \<Rightarrow> Returned g
      | Some CountdownTick \<Rightarrow> countdownTick g
      | Some TimerTick \<Rightarrow> Returned (updateTimer g))"

text \<open>A handler that throws leaves the session where the throw found it; the page goes on.\<close>

fun run :: "event list \<Rightarrow> game \<Rightarrow> game" where
  "run [] g = g"
| "run (e # es) g = run es (state_of (step e g))"

inductive reachable :: "game \<Rightarrow> bool" where
  reach_new: "reachable (newGame cd overlay btn)"
| reach_step: "reachable g \<Longrightarrow> reachable (state_of (step e g))"

fun is_answer :: "event \<Rightarrow> bool" where
  "is_answer (CorrectBtn rnd) = True"
| "is_answer (PassBtn rnd) = True"
| "is_answer e = False"

text \<open>Round confirmations in a row; a confirmation that throws ends the row.\<close>

fun confirmRounds :: "nat \<Rightarrow> game \<Rightarrow> outcome" where
  "confirmRounds 0 g = Returned g"
| "confirmRounds (Suc n) g =
     (case confirmScore g of Raised e g' \<Rightarrow> Raised e g' | Returned g' \<Rightarrow> confirmRounds n g')"

text \<open>
  A session of \<open>T\<close> teams, as \<open>setupAndStartGame\<close> and \<open>endRound\<close> leave it: \<open>T\<close> team
  records and the turn at one of them.
\<close>

fun turn_below :: "jsnum \<Rightarrow> nat \<Rightarrow> bool" where
  "turn_below (Num i) n \<longleftrightarrow> i < n"
| "turn_below NaN n \<longleftrightarrow> False"

definition session_of :: "nat \<Rightarrow> game \<Rightarrow> bool" where
  "session_of T g \<longleftrightarrow>
     numberOfTeams g = T \<and> length (teams g) = T \<and> turn_below (currentTeamIndex g) T"

text \<open>
  What every session keeps: as many team records as \<open>numberOfTeams\<close> says, and a turn that
  is a number below it (0 while there is no team).
\<close>

definition teams_wf :: "game \<Rightarrow> bool" where
  "teams_wf g \<longleftrightarrow>
     length (teams g) = numberOfTeams g \<and>
     turn_below (currentTeamIndex g) (max 1 (numberOfTeams g))"

text \<open>A card is on display and the selected decks hold at least one card.\<close>

definition cards_ready :: "game \<Rightarrow> bool" where
  "cards_ready g \<longleftrightarrow>
     activeCards (cardData g) (selectedDecks g) \<noteq> [] \<and>
     currentCardIndex g < length (shuffledCards g)"

text \<open>The status an answer writes into the round record.\<close>

fun answer_status :: "event \<Rightarrow> status" where
  "answer_status (CorrectBtn rnd) = Correct"
| "answer_status e = Skipped"

definition correct_count :: "round_card list \<Rightarrow> nat" where
  "correct_count rs = length (filter (\<lambda>c. status c = Correct) rs)"

section \<open>A sample session\<close>

text \<open>
  One card in the deck \<open>naija\<close>, an empty deck \<open>global\<close>, and a shuffle whose every draw
  is \<open>j = i\<close>.
\<close>

definition lagos :: raw_card where
  "lagos = \<lparr>targetWord = ''Lagos'', forbiddenWords = [''City'', ''Naija'']\<rparr>"

definition demoData :: "string \<rightharpoonup> raw_card list" where
  "demoData = [''naija'' \<mapsto> [lagos], ''global'' \<mapsto> []]"

definition keepOrder :: "nat \<Rightarrow> nat" where
  "keepOrder i = i"

definition demoStart :: game where
  "demoStart = newGame demoData (Some []) True"

definition demoReady :: game where
  "demoReady = run [TeamCountBtn 2 keepOrder] demoStart"

definition demoPlaying :: game where
  "demoPlaying = run [TeamCountBtn 2 keepOrder, SkipCountdownBtn] demoStart"

definition demoAnswered :: game where
  "demoAnswered = run [TeamCountBtn 2 keepOrder, SkipCountdownBtn, CorrectBtn keepOrder] demoStart"

text \<open>One correct answer, then the thirty ticks of the round timer: the review screen.\<close>

definition demoReview :: game where
  "demoReview =
     run ([TeamCountBtn 2 keepOrder, SkipCountdownBtn, CorrectBtn keepOrder] @ replicate 30 (Fire 2))
       demoStart"

text \<open>The deck \<open>global\<close> selected and \<open>naija\<close> deselected after a confirmed round.\<close>

definition demoNoCards :: game where
  "demoNoCards =
     run [TeamCountBtn 2 keepOrder, SkipCountdownBtn, CorrectBtn keepOrder, ConfirmScoreBtn,
          NewGameBtn, DeckOption ''global'', DeckOption ''naija''] demoStart"

text \<open>The same without the button \<open>new-game-btn\<close>: the scoreboard is still on screen.\<close>

definition demoRoundOver :: game where
  "demoRoundOver =
     run [TeamCountBtn 2 keepOrder, SkipCountdownBtn, CorrectBtn keepOrder, ConfirmScoreBtn,
          DeckOption ''global'', DeckOption ''naija''] demoStart"

section \<open>The screens of the page\<close>

text \<open>
  Modelled from the spec: the page itself (\<open>index.html\<close> and its style sheet), which
  decides on which screen a control can be pressed, is not among the sources;
  \<open>renderScreen\<close> makes the screen of the current phase the only active one. The
  transition table of the spec names the phase of each trigger: play pressed in
  \<open>WELCOME\<close>; team count chosen, with the decks selected, in \<open>TEAM_SELECTION\<close>; countdown
  skipped in \<open>GET_READY\<close>; correct, pass, pause and resume in \<open>PLAYING\<close>; confirm, and the
  toggling of a review entry, in \<open>REVIEW\<close>; next round in \<open>ROUND_OVER\<close>; reset in
  \<open>TEAM_SELECTION\<close>, \<open>ROUND_OVER\<close> or \<open>GAME_OVER\<close>; quit in any phase. The buttons of the
  round duration are not in the table and are taken to be offered always, and a live
  interval fires whatever the screen.
\<close>

fun offered :: "game_state \<Rightarrow> event \<Rightarrow> bool" where
  "offered s PlayNowBtn \<longleftrightarrow> s = WELCOME"
| "offered s (TeamCountBtn n rnd) \<longleftrightarrow> s = TEAM_SELECTION"
| "offered s (DeckOption deck) \<longleftrightarrow> s = TEAM_SELECTION"
| "offered s SkipCountdownBtn \<longleftrightarrow> s = GET_READY"
| "offered s (CorrectBtn rnd) \<longleftrightarrow> s = PLAYING"
| "offered s (PassBtn rnd) \<longleftrightarrow> s = PLAYING"
| "offered s PauseBtn \<longleftrightarrow> s = PLAYING"
| "offered s ConfirmScoreBtn \<longleftrightarrow> s = REVIEW"
| "offered s (ToggleCardStatus index) \<longleftrightarrow> s = REVIEW"
| "offered s NextRoundBtn \<longleftrightarrow> s = ROUND_OVER"
| "offered s NewGameBtn \<longleftrightarrow> s = TEAM_SELECTION \<or> s = ROUND_OVER \<or> s = GAME_OVER"
| "offered s (QuitBtn confirmed) \<longleftrightarrow> True"
| "offered s (TimerBtn duration) \<longleftrightarrow> True"
| "offered s (Fire h) \<longleftrightarrow> True"

text \<open>
  The sessions a game can be in when every control is pressed on its own screen: a part
  of the \<open>reachable\<close> ones.
\<close>

inductive played :: "game \<Rightarrow> bool" where
  played_new: "played (newGame cd overlay btn)"
| played_step: "played g \<Longrightarrow> offered (state g) e \<Longrightarrow> played (state_of (step e g))"

text \<open>Whether each event of a list is offered on the screen it meets.\<close>

fun all_offered :: "event list \<Rightarrow> game \<Rightarrow> bool" where
  "all_offered [] g \<longleftrightarrow> True"
| "all_offered (e # es) g \<longleftrightarrow> offered (state g) e \<and> all_offered es (state_of (step e g))"

text \<open>
  What such a session keeps. At most one interval is live: the countdown on the get-ready
  screen, the round timer during play that is not paused, each under the handle the game
  manager holds.
\<close>

definition timers_ok :: "game \<Rightarrow> bool" where
  "timers_ok g \<longleftrightarrow>
     intervals g = [] \<or>
     (state g = GET_READY \<and> (\<exists>k. countdownInterval g = Some k \<and> intervals g = [(k, CountdownTick)])) \<or>
     (state g = PLAYING \<and> \<not> isPaused g \<and>
        (\<exists>k. timerInterval g = Some k \<and> intervals g = [(k, TimerTick)]))"

text \<open>
  The completed rounds, for \<open>T\<close> teams: none before a game is set up, fewer than
  \<open>T * MAX_ROUNDS_PER_TEAM\<close> while the game goes on, exactly that many once it is over.
\<close>

fun total_ok :: "game_state \<Rightarrow> nat \<Rightarrow> nat \<Rightarrow> bool" where
  "total_ok WELCOME T n \<longleftrightarrow> n = 0"
| "total_ok TEAM_SELECTION T n \<longleftrightarrow> n = 0"
| "total_ok GAME_OVER T n \<longleftrightarrow> 1 \<le> T \<and> n = T * MAX_ROUNDS_PER_TEAM"
| "total_ok s T n \<longleftrightarrow> n < T * MAX_ROUNDS_PER_TEAM \<or> (T = 0 \<and> n = 0)"

fun in_game :: "game_state \<Rightarrow> bool" where
  "in_game WELCOME \<longleftrightarrow> False"
| "in_game TEAM_SELECTION \<longleftrightarrow> False"
| "in_game s \<longleftrightarrow> True"

definition play_inv :: "game \<Rightarrow> bool" where
  "play_inv g \<longleftrightarrow>
     teams_wf g \<and> timers_ok g \<and> (in_game (state g) \<longrightarrow> cards_ready g) \<and>
     total_ok (state g) (numberOfTeams g) (totalRoundsCompleted g)"


text \<open>
  Events that all meet the game screen: each is offered there, and none before the last
  has ended the round.
\<close>

fun during_play :: "event list \<Rightarrow> game \<Rightarrow> bool" where
  "during_play [] g \<longleftrightarrow> True"
| "during_play (e # es) g \<longleftrightarrow>
     state g = PLAYING \<and> offered PLAYING e \<and> during_play es (state_of (step e g))"

text \<open>The sample session once more, every button pressed on its screen.\<close>

definition gameReady :: game where
  "gameReady = run [PlayNowBtn, TeamCountBtn 2 keepOrder] demoStart"

text \<open>
  A round is the countdown skipped and the thirty ticks of the round timer, whose handle
  is \<open>h\<close>. Two teams at the review screen of the first round; one team, two rounds played
  and confirmed, at the review screen of the third.
\<close>

definition timedRound :: "nat \<Rightarrow> event list" where
  "timedRound h = SkipCountdownBtn # replicate 30 (Fire h)"

definition gameReview :: game where
  "gameReview = run ([PlayNowBtn, TeamCountBtn 2 keepOrder] @ timedRound 2) demoStart"

definition lastReview :: game where
  "lastReview =
     run ([PlayNowBtn, TeamCountBtn 1 keepOrder] @ timedRound 2 @ [ConfirmScoreBtn, NextRoundBtn] @
          timedRound 4 @ [ConfirmScoreBtn, NextRoundBtn] @ timedRound 6)
       demoStart"

section \<open>Shuffling and team building\<close>

lemma length_swap [simp]: "length (swap i j xs) = length xs"
  by (simp add: swap_def)

lemma length_shuffleLoop [simp]: "length (shuffleLoop rnd i xs) = length xs"
  by (induction i arbitrary: xs) simp_all

lemma length_shuffleArray [simp]: "length (shuffleArray rnd xs) = length xs"
  by (simp add: shuffleArray_def)

lemma mset_swap_in: "i < length xs \<Longrightarrow> j < length xs \<Longrightarrow> mset (swap i j xs) = mset xs"
  unfolding swap_def by (simp add: mset_swap)

lemma mset_shuffleLoop: "i < length xs \<Longrightarrow> mset (shuffleLoop rnd i xs) = mset xs"
proof (induction i arbitrary: xs)
  case 0
  then show ?case by simp
next
  case (Suc i)
  have "rnd (Suc i) mod (Suc i + 1) < Suc i + 1" by simp
  with Suc.prems have "rnd (Suc i) mod (Suc i + 1) < length xs" by linarith
  with Suc show ?case by (simp add: mset_swap_in)
qed

lemma mset_shuffleArray [simp]: "mset (shuffleArray rnd xs) = mset xs"
  by (cases xs) (simp_all add: shuffleArray_def mset_shuffleLoop)

lemma pushTeams_eq: "pushTeams i n ts = ts @ map newTeam [i..<n]"
proof (induction i n ts rule: pushTeams.induct)
  case (1 i n ts)
  show ?case
  proof (cases "i < n")
    case True
    with 1 show ?thesis
      by (subst pushTeams.simps) (simp add: upt_conv_Cons)
  next
    case False
    then show ?thesis by (subst pushTeams.simps) simp
  qed
qed

lemma activeCards_concat:
  "activeCards cd decks =
     concat (map (\<lambda>deck. case cd deck of None \<Rightarrow> [] | Some cs \<Rightarrow> map (stamp deck) cs) decks)"
  by (induction decks) simp_all

section \<open>Serving cards\<close>

lemma updateCard_shown:
  "currentCardIndex g < length (shuffledCards g) \<Longrightarrow> updateCard g = Returned g"
  by (simp add: updateCard_def at_def)

lemma nextCard_cards:
  assumes "activeCards (cardData g) (selectedDecks g) \<noteq> []"
  shows "nextCard rnd g = Returned
     (if length (shuffledCards g) \<le> currentCardIndex g + 1
      then g\<lparr>currentCardIndex := 0,
             shuffledCards := shuffleArray rnd (activeCards (cardData g) (selectedDecks g))\<rparr>
      else g\<lparr>currentCardIndex := currentCardIndex g + 1\<rparr>)"
  using assms by (simp add: nextCard_def Let_def updateCard_shown)

lemma nextCard_ready:
  assumes "activeCards (cardData g) (selectedDecks g) \<noteq> []"
  shows "\<exists>g'. nextCard rnd g = Returned g' \<and> cards_ready g' \<and> roundCards g' = roundCards g"
  using assms by (simp add: nextCard_cards cards_ready_def)

lemma answer_ready:
  assumes "cards_ready g" "is_answer e"
  shows "\<exists>g'. step e g = Returned g' \<and> cards_ready g' \<and>
           map status (roundCards g') = map status (roundCards g) @ [answer_status e]"
proof (cases e)
  case (CorrectBtn rnd)
  let ?g = "g\<lparr>roundCards := roundCards g @
      [\<lparr>word = targetWord (shuffledCards g ! currentCardIndex g), status = Correct\<rparr>],
      roundScore := roundScore g + 1\<rparr>"
  have "activeCards (cardData ?g) (selectedDecks ?g) \<noteq> []"
    using assms(1) by (simp add: cards_ready_def)
  from nextCard_ready [OF this, of rnd] show ?thesis
    using assms(1) CorrectBtn by (auto simp: handleCorrect_def at_def cards_ready_def)
next
  case (PassBtn rnd)
  let ?g = "g\<lparr>roundCards := roundCards g @
      [\<lparr>word = targetWord (shuffledCards g ! currentCardIndex g), status = Skipped\<rparr>]\<rparr>"
  have "activeCards (cardData ?g) (selectedDecks ?g) \<noteq> []"
    using assms(1) by (simp add: cards_ready_def)
  from nextCard_ready [OF this, of rnd] show ?thesis
    using assms(1) PassBtn by (auto simp: handlePass_def at_def cards_ready_def)
qed (use assms(2) in simp_all)

lemma answers_ready:
  assumes "cards_ready g" "\<forall>e \<in> set es. is_answer e"
  shows "cards_ready (run es g) \<and>
         map status (roundCards (run es g)) = map status (roundCards g) @ map answer_status es"
  using assms
proof (induction es arbitrary: g)
  case Nil
  then show ?case by simp
next
  case (Cons e es)
  then obtain g' where g': "step e g = Returned g'" "cards_ready g'"
    "map status (roundCards g') = map status (roundCards g) @ [answer_status e]"
    using answer_ready [of g e] by auto
  with Cons.IH [of g'] Cons.prems show ?case by simp
qed

lemma startRound_ready:
  assumes "cards_ready g"
  shows "cards_ready (state_of (startRound g)) \<and> roundCards (state_of (startRound g)) = []"
  using assms
  by (auto simp: startRound_def Let_def updateCard_shown cards_ready_def setInterval_def
      clearInterval_def split: option.splits)

section \<open>Review and confirmation\<close>

lemma toggleCardStatus_fields:
  "roundScore (toggleCardStatus i g) = roundScore g"
  "length (roundCards (toggleCardStatus i g)) = length (roundCards g)"
  by (simp_all add: toggleCardStatus_def at_def)

lemma fold_toggle_fields:
  "roundScore (fold toggleCardStatus is g) = roundScore g \<and>
   length (roundCards (fold toggleCardStatus is g)) = length (roundCards g)"
  by (induction "is" arbitrary: g) (simp_all add: toggleCardStatus_fields)

lemma endRound_keeps:
  "roundScore (state_of (endRound g)) = roundScore g"
  "roundCards (state_of (endRound g)) = roundCards g"
  by (simp_all add: endRound_def Let_def showFinalWinner_def clearInterval_def
      split: option.splits prod.splits)

lemma confirmScore_score:
  "roundScore (state_of (confirmScore g)) = correct_count (roundCards g)"
  "roundCards (state_of (confirmScore g)) = roundCards g"
  by (simp_all add: confirmScore_def endRound_keeps correct_count_def)

lemma nextCard_roundCards: "roundCards (state_of (nextCard rnd g)) = roundCards g"
  by (simp add: nextCard_def Let_def updateCard_def endRound_keeps split: option.splits)

lemma answer_roundCards:
  assumes "is_answer e"
  shows "roundCards (state_of (step e g)) =
     (case at (shuffledCards g) (currentCardIndex g) of
        None \<Rightarrow> roundCards g
      | Some c \<Rightarrow> roundCards g @ [\<lparr>word = targetWord c, status = answer_status e\<rparr>])"
  using assms
  by (cases e) (simp_all add: handleCorrect_def handlePass_def nextCard_roundCards split: option.splits)

lemma session_ofD:
  assumes "session_of T g"
  obtains i where "currentTeamIndex g = Num i" "i < T" "numberOfTeams g = T" "length (teams g) = T"
  using assms by (cases "currentTeamIndex g") (auto simp: session_of_def)

lemma endRound_session:
  assumes "session_of T g" "currentTeamIndex g = Num i"
  shows "\<exists>g'. endRound g = Returned g' \<and> session_of T g' \<and>
           currentTeamIndex g' = Num ((i + 1) mod T) \<and>
           teams g' = (teams g)[i := (teams g ! i)\<lparr>score := score (teams g ! i) + roundScore g\<rparr>] \<and>
           totalRoundsCompleted g' = totalRoundsCompleted g + 1 \<and>
           state g' = (if T * 3 \<le> totalRoundsCompleted g + 1 then GAME_OVER else ROUND_OVER)"
proof -
  from assms have T: "0 < T" "i < T" "numberOfTeams g = T" "length (teams g) = T"
    by (auto simp: session_of_def)
  then have "(i + 1) mod T < T" by simp
  with T assms(2) show ?thesis
    by (simp add: endRound_def Let_def teamAt_def at_def succ_rem_def clearInterval_def
        showFinalWinner_def session_of_def MAX_ROUNDS_PER_TEAM_def)
qed

lemma confirmScore_session:
  assumes "session_of T g" "currentTeamIndex g = Num i"
  shows "\<exists>g'. confirmScore g = Returned g' \<and> session_of T g' \<and>
           currentTeamIndex g' = Num ((i + 1) mod T) \<and>
           teams g' = (teams g)[i := (teams g ! i)\<lparr>score := score (teams g ! i) +
              correct_count (roundCards g)\<rparr>] \<and>
           totalRoundsCompleted g' = totalRoundsCompleted g + 1 \<and>
           state g' = (if T * 3 \<le> totalRoundsCompleted g + 1 then GAME_OVER else ROUND_OVER)"
proof -
  let ?g = "g\<lparr>roundScore := length (filter (\<lambda>c. status c = Correct) (roundCards g))\<rparr>"
  have "session_of T ?g" "currentTeamIndex ?g = Num i"
    using assms by (simp_all add: session_of_def)
  from endRound_session [OF this] show ?thesis
    by (auto simp: confirmScore_def correct_count_def)
qed

lemma confirmRounds_session:
  assumes "session_of T g" "currentTeamIndex g = Num i"
  shows "\<exists>g'. confirmRounds n g = Returned g' \<and> session_of T g' \<and>
           currentTeamIndex g' = Num ((i + n) mod T) \<and>
           totalRoundsCompleted g' = totalRoundsCompleted g + n \<and>
           (0 < n \<longrightarrow> state g' =
              (if T * 3 \<le> totalRoundsCompleted g + n then GAME_OVER else ROUND_OVER))"
  using assms
proof (induction n arbitrary: g i)
  case 0
  then show ?case by (auto simp: session_of_def)
next
  case (Suc n)
  from confirmScore_session [OF Suc.prems] obtain g1 where g1:
    "confirmScore g = Returned g1" "session_of T g1" "currentTeamIndex g1 = Num ((i + 1) mod T)"
    "totalRoundsCompleted g1 = totalRoundsCompleted g + 1"
    "state g1 = (if T * 3 \<le> totalRoundsCompleted g + 1 then GAME_OVER else ROUND_OVER)"
    by blast
  from Suc.IH [OF g1(2,3)] obtain g' where g':
    "confirmRounds n g1 = Returned g'" "session_of T g'"
    "currentTeamIndex g' = Num (((i + 1) mod T + n) mod T)"
    "totalRoundsCompleted g' = totalRoundsCompleted g1 + n"
    "0 < n \<longrightarrow> state g' =
       (if T * 3 \<le> totalRoundsCompleted g1 + n then GAME_OVER else ROUND_OVER)"
    by blast
  have "((i + 1) mod T + n) mod T = (i + Suc n) mod T"
    by (simp add: mod_add_left_eq)
  moreover have "n = 0 \<Longrightarrow> g' = g1" using g'(1) by simp
  ultimately show ?case using g1 g' by (cases "n = 0") auto
qed

section \<open>The teams\<close>

lemma endRound_wf: "teams_wf g \<Longrightarrow> teams_wf (state_of (endRound g))"
proof (cases "teamAt (teams g) (currentTeamIndex g)")
  case None
  moreover assume "teams_wf g"
  ultimately show ?thesis
    by (simp add: endRound_def Let_def clearInterval_def teams_wf_def)
next
  case (Some it)
  assume wf: "teams_wf g"
  obtain i t where it: "it = (i, t)" by (cases it)
  with Some have i: "currentTeamIndex g = Num i" "i < length (teams g)"
    by (auto simp: teamAt_def at_def split: jsnum.splits if_splits)
  with wf have n: "numberOfTeams g = length (teams g)" "0 < length (teams g)"
    by (auto simp: teams_wf_def)
  then have "Suc i mod length (teams g) < length (teams g)" by simp
  with Some it n show ?thesis
    by (simp add: endRound_def Let_def clearInterval_def teams_wf_def succ_rem_def
        showFinalWinner_def less_max_iff_disj)
qed

lemma updateCard_wf: "teams_wf g \<Longrightarrow> teams_wf (state_of (updateCard g))"
  by (simp add: updateCard_def endRound_wf split: option.splits)

lemma startRound_wf: "teams_wf g \<Longrightarrow> teams_wf (state_of (startRound g))"
proof -
  assume wf: "teams_wf g"
  let ?g1 = "g\<lparr>state := PLAYING, isPaused := False,
                  pauseOverlay := map_option (\<lambda>d. ''none'') (pauseOverlay g),
                  roundCards := [], roundScore := 0, timeLeft := roundDuration g\<rparr>"
  have "teams_wf ?g1" using wf by (simp add: teams_wf_def)
  then have "teams_wf (state_of (updateCard ?g1))" by (rule updateCard_wf)
  then show ?thesis
    using wf
    by (cases "updateCard ?g1")
      (simp_all add: startRound_def Let_def setInterval_def clearInterval_def teams_wf_def
        split: option.splits)
qed

lemma startCountdown_wf: "teams_wf g \<Longrightarrow> teams_wf (state_of (startCountdown g))"
  by (simp add: startCountdown_def Let_def setInterval_def clearInterval_def teams_wf_def
      split: option.splits)

lemma countdownTick_wf: "teams_wf g \<Longrightarrow> teams_wf (state_of (countdownTick g))"
proof -
  assume wf: "teams_wf g"
  then have "teams_wf (clearInterval (countdownInterval g) (g\<lparr>countdownTime := countdownTime g - 1\<rparr>))"
    "teams_wf (g\<lparr>countdownTime := countdownTime g - 1\<rparr>)"
    by (simp_all add: teams_wf_def clearInterval_def)
  then show ?thesis
    by (simp add: countdownTick_def Let_def startRound_wf)
qed

lemma skipCountdown_wf: "teams_wf g \<Longrightarrow> teams_wf (state_of (skipCountdown g))"
proof -
  assume "teams_wf g"
  then have "teams_wf (clearInterval (countdownInterval g) g)"
    by (simp add: teams_wf_def clearInterval_def)
  then show ?thesis by (simp add: skipCountdown_def startRound_wf)
qed

lemma length_pushTeams: "length (pushTeams 0 n []) = n"
  by (simp add: pushTeams_eq)

lemma setupAndStartGame_wf: "teams_wf (state_of (setupAndStartGame n rnd g))"
proof -
  let ?g1 = "g\<lparr>numberOfTeams := n, teams := pushTeams 0 n [],
                  currentTeamIndex := Num 0, totalRoundsCompleted := 0\<rparr>"
  have fresh: "teams_wf ?g1"
    by (simp add: teams_wf_def length_pushTeams less_max_iff_disj)
  then have "teams_wf (?g1\<lparr>alerts := a\<rparr>)" "teams_wf (?g1\<lparr>shuffledCards := cs, currentCardIndex := 0\<rparr>)"
    for a cs
    by (simp_all add: teams_wf_def)
  then show ?thesis
    by (simp add: setupAndStartGame_def Let_def startCountdown_wf)
qed

lemma nextCard_wf: "teams_wf g \<Longrightarrow> teams_wf (state_of (nextCard rnd g))"
proof -
  assume wf: "teams_wf g"
  have "teams_wf g'" if "teams g' = teams g" "numberOfTeams g' = numberOfTeams g"
    "currentTeamIndex g' = currentTeamIndex g" for g'
    using wf that by (simp add: teams_wf_def)
  then show ?thesis
    by (simp add: nextCard_def Let_def updateCard_wf)
qed

lemma handleCorrect_wf: "teams_wf g \<Longrightarrow> teams_wf (state_of (handleCorrect rnd g))"
proof -
  assume wf: "teams_wf g"
  have "teams_wf g'" if "teams g' = teams g" "numberOfTeams g' = numberOfTeams g"
    "currentTeamIndex g' = currentTeamIndex g" for g'
    using wf that by (simp add: teams_wf_def)
  then show ?thesis using wf
    by (simp add: handleCorrect_def nextCard_wf split: option.splits)
qed

lemma handlePass_wf: "teams_wf g \<Longrightarrow> teams_wf (state_of (handlePass rnd g))"
proof -
  assume wf: "teams_wf g"
  have "teams_wf g'" if "teams g' = teams g" "numberOfTeams g' = numberOfTeams g"
    "currentTeamIndex g' = currentTeamIndex g" for g'
    using wf that by (simp add: teams_wf_def)
  then show ?thesis using wf
    by (simp add: handlePass_def nextCard_wf split: option.splits)
qed

lemma confirmScore_wf: "teams_wf g \<Longrightarrow> teams_wf (state_of (confirmScore g))"
proof -
  assume "teams_wf g"
  then have "teams_wf (g\<lparr>roundScore := length (filter (\<lambda>c. status c = Correct) (roundCards g))\<rparr>)"
    by (simp add: teams_wf_def)
  then show ?thesis by (simp add: confirmScore_def endRound_wf)
qed

lemma other_wf:
  assumes "teams_wf g"
  shows "teams_wf (updateTimer g)" "teams_wf (togglePause g)" "teams_wf (resetGame g)"
    "teams_wf (quitGame c g)" "teams_wf (toggleCardStatus i g)" "teams_wf (setRoundDuration d g)"
    "teams_wf (snd (toggleDeck deck g))" "teams_wf (g\<lparr>state := TEAM_SELECTION\<rparr>)"
  using assms
  by (simp_all add: teams_wf_def updateTimer_def showReviewScreen_def togglePause_def Let_def
      setInterval_def clearInterval_def resetGame_def quitGame_def toggleCardStatus_def
      setRoundDuration_def toggleDeck_def split: option.splits)

lemma step_wf: "teams_wf g \<Longrightarrow> teams_wf (state_of (step e g))"
proof (cases e)
  case (Fire h)
  assume "teams_wf g"
  with Fire show ?thesis
    by (simp add: countdownTick_wf other_wf split: option.splits callback.splits)
qed (simp_all add: startCountdown_wf skipCountdown_wf setupAndStartGame_wf handleCorrect_wf
      handlePass_wf confirmScore_wf other_wf)

lemma reachable_wf: "reachable g \<Longrightarrow> teams_wf g"
proof (induction rule: reachable.induct)
  case (reach_new cd overlay btn)
  show ?case by (simp add: newGame_def teams_wf_def)
next
  case (reach_step g e)
  from reach_step.IH show ?case by (rule step_wf)
qed

lemma reachable_session:
  "reachable g \<Longrightarrow> 1 \<le> numberOfTeams g \<Longrightarrow> session_of (numberOfTeams g) g"
  using reachable_wf [of g] by (simp add: teams_wf_def session_of_def max_def)

section \<open>The selected decks\<close>

lemma endRound_decks: "selectedDecks (state_of (endRound g)) = selectedDecks g"
  by (simp add: endRound_def Let_def showFinalWinner_def clearInterval_def
      split: option.splits prod.splits)

lemma updateCard_decks: "selectedDecks (state_of (updateCard g)) = selectedDecks g"
  by (simp add: updateCard_def endRound_decks split: option.splits)

lemma startRound_decks: "selectedDecks (state_of (startRound g)) = selectedDecks g"
proof -
  let ?g1 = "g\<lparr>state := PLAYING, isPaused := False,
                  pauseOverlay := map_option (\<lambda>d. ''none'') (pauseOverlay g),
                  roundCards := [], roundScore := 0, timeLeft := roundDuration g\<rparr>"
  have "selectedDecks (state_of (updateCard ?g1)) = selectedDecks g"
    by (simp add: updateCard_decks)
  then show ?thesis
    by (cases "updateCard ?g1")
      (simp_all add: startRound_def Let_def setInterval_def clearInterval_def split: option.splits)
qed

lemma startCountdown_decks: "selectedDecks (state_of (startCountdown g)) = selectedDecks g"
  by (simp add: startCountdown_def Let_def setInterval_def clearInterval_def split: option.splits)

lemma countdownTick_decks: "selectedDecks (state_of (countdownTick g)) = selectedDecks g"
  by (simp add: countdownTick_def Let_def startRound_decks clearInterval_def)

lemma skipCountdown_decks: "selectedDecks (state_of (skipCountdown g)) = selectedDecks g"
  by (simp add: skipCountdown_def startRound_decks clearInterval_def)

lemma setupAndStartGame_decks:
  "selectedDecks (state_of (setupAndStartGame n rnd g)) = selectedDecks g"
  by (simp add: setupAndStartGame_def Let_def startCountdown_decks)

lemma nextCard_decks: "selectedDecks (state_of (nextCard rnd g)) = selectedDecks g"
  by (simp add: nextCard_def Let_def updateCard_decks)

lemma handleCorrect_decks: "selectedDecks (state_of (handleCorrect rnd g)) = selectedDecks g"
  by (simp add: handleCorrect_def nextCard_decks split: option.splits)

lemma handlePass_decks: "selectedDecks (state_of (handlePass rnd g)) = selectedDecks g"
  by (simp add: handlePass_def nextCard_decks split: option.splits)

lemma confirmScore_decks: "selectedDecks (state_of (confirmScore g)) = selectedDecks g"
  by (simp add: confirmScore_def endRound_decks)

lemma updateTimer_decks: "selectedDecks (updateTimer g) = selectedDecks g"
  by (simp add: updateTimer_def Let_def showReviewScreen_def clearInterval_def)

lemma togglePause_decks: "selectedDecks (togglePause g) = selectedDecks g"
  by (simp add: togglePause_def Let_def setInterval_def clearInterval_def)

lemma other_decks:
  "selectedDecks (resetGame g) = selectedDecks g"
  "selectedDecks (quitGame c g) = selectedDecks g"
  "selectedDecks (toggleCardStatus i g) = selectedDecks g"
  "selectedDecks (setRoundDuration d g) = selectedDecks g"
  by (simp_all add: resetGame_def quitGame_def toggleCardStatus_def setRoundDuration_def
      clearInterval_def split: option.splits)

lemma toggleDeck_keeps_one:
  assumes "distinct (selectedDecks g)" "selectedDecks g \<noteq> []"
  shows "distinct (selectedDecks (snd (toggleDeck deck g))) \<and>
         selectedDecks (snd (toggleDeck deck g)) \<noteq> []"
proof (cases "deck \<in> set (selectedDecks g) \<and> 1 < length (selectedDecks g)")
  case True
  then have "length (removeAll deck (selectedDecks g)) = length (selectedDecks g) - 1"
    using assms(1) by (simp add: distinct_remove1_removeAll [symmetric] length_remove1)
  with True have "removeAll deck (selectedDecks g) \<noteq> []" by auto
  with True assms show ?thesis by (simp add: toggleDeck_def distinct_removeAll)
next
  case False
  with assms show ?thesis by (auto simp: toggleDeck_def)
qed

lemma step_decks:
  assumes "distinct (selectedDecks g)" "selectedDecks g \<noteq> []"
  shows "distinct (selectedDecks (state_of (step e g))) \<and>
         selectedDecks (state_of (step e g)) \<noteq> []"
proof (cases e)
  case (DeckOption deck)
  with toggleDeck_keeps_one [OF assms] show ?thesis by simp
next
  case (Fire h)
  with assms show ?thesis
    by (simp add: countdownTick_decks updateTimer_decks split: option.splits callback.splits)
qed (use assms in \<open>simp_all add: endRound_decks startCountdown_decks skipCountdown_decks
      setupAndStartGame_decks handleCorrect_decks handlePass_decks confirmScore_decks
      togglePause_decks other_decks\<close>)

lemma reachable_decks: "reachable g \<Longrightarrow> distinct (selectedDecks g) \<and> selectedDecks g \<noteq> []"
proof (induction rule: reachable.induct)
  case (reach_new cd overlay btn)
  show ?case by (simp add: newGame_def)
next
  case (reach_step g e)
  then show ?case using step_decks by blast
qed

lemma reachable_run: "reachable g \<Longrightarrow> reachable (run es g)"
  by (induction es arbitrary: g) (auto intro: reachable.reach_step)

lemma reachable_demo: "reachable (run es demoStart)"
  unfolding demoStart_def by (rule reachable_run) (rule reachable.reach_new)

section \<open>Setting up a game\<close>

lemma startCountdown_teams:
  "teams (state_of (startCountdown g)) = teams g"
  "numberOfTeams (state_of (startCountdown g)) = numberOfTeams g"
  "currentTeamIndex (state_of (startCountdown g)) = currentTeamIndex g"
  "totalRoundsCompleted (state_of (startCountdown g)) = totalRoundsCompleted g"
  by (simp_all add: startCountdown_def Let_def setInterval_def clearInterval_def
      split: option.splits)

lemma setupAndStartGame_teams:
  "teams (state_of (setupAndStartGame n rnd g)) = map newTeam [0..<n]"
  "numberOfTeams (state_of (setupAndStartGame n rnd g)) = n"
  "currentTeamIndex (state_of (setupAndStartGame n rnd g)) = Num 0"
  "totalRoundsCompleted (state_of (setupAndStartGame n rnd g)) = 0"
  by (simp_all add: setupAndStartGame_def Let_def startCountdown_teams pushTeams_eq)

lemma setupAndStartGame_no_cards:
  assumes "activeCards (cardData g) (selectedDecks g) = []"
  shows "setupAndStartGame n rnd g =
     Returned (g\<lparr>numberOfTeams := n, teams := map newTeam [0..<n], currentTeamIndex := Num 0,
                 totalRoundsCompleted := 0,
                 alerts := alerts g @ [''Please select at least one deck!'']\<rparr>)"
  using assms by (simp add: setupAndStartGame_def Let_def pushTeams_eq)

lemma setupAndStartGame_cards:
  assumes "activeCards (cardData g) (selectedDecks g) \<noteq> []"
  shows "state (state_of (setupAndStartGame n rnd g)) = GET_READY \<and>
         alerts (state_of (setupAndStartGame n rnd g)) = alerts g"
  using assms
  by (simp add: setupAndStartGame_def Let_def startCountdown_def setInterval_def clearInterval_def
      split: option.splits)

section \<open>Pausing\<close>

lemma map_of_cleared: "map_of (filter (\<lambda>(k, cb). k \<noteq> h) xs) h = None"
  by (induction xs) auto

lemma updateTimer_paused: "isPaused g \<Longrightarrow> (updateTimer ^^ n) g = g"
  by (induction n) (simp_all add: updateTimer_def)

section \<open>Sessions on the screens\<close>

lemma timers_idle:
  "timers_ok g \<Longrightarrow> state g \<noteq> GET_READY \<Longrightarrow> state g \<noteq> PLAYING \<Longrightarrow> intervals g = []"
  by (auto simp: timers_ok_def)

lemma timers_paused: "timers_ok g \<Longrightarrow> state g = PLAYING \<Longrightarrow> isPaused g \<Longrightarrow> intervals g = []"
  by (auto simp: timers_ok_def)

lemma timers_clear_countdown:
  "timers_ok g \<Longrightarrow> state g = GET_READY \<Longrightarrow>
   filter (\<lambda>(k, cb). Some k \<noteq> countdownInterval g) (intervals g) = []"
  by (auto simp: timers_ok_def)

lemma timers_clear_timer:
  "timers_ok g \<Longrightarrow> state g = PLAYING \<Longrightarrow>
   filter (\<lambda>(k, cb). Some k \<noteq> timerInterval g) (intervals g) = []"
  by (auto simp: timers_ok_def)

lemma timers_fire:
  assumes "timers_ok g" "map_of (intervals g) h = Some cb"
  shows "(cb = CountdownTick \<and> state g = GET_READY) \<or>
         (cb = TimerTick \<and> state g = PLAYING \<and> \<not> isPaused g)"
  using assms by (auto simp: timers_ok_def split: if_splits)

lemma startRound_idle:
  assumes "intervals g = []" "currentCardIndex g < length (shuffledCards g)"
  shows "state_of (startRound g) =
     (if teamAt (teams g) (currentTeamIndex g) = None
      then g\<lparr>state := PLAYING, isPaused := False,
             pauseOverlay := map_option (\<lambda>d. ''none'') (pauseOverlay g),
             roundCards := [], roundScore := 0, timeLeft := roundDuration g\<rparr>
      else g\<lparr>state := PLAYING, isPaused := False,
             pauseOverlay := map_option (\<lambda>d. ''none'') (pauseOverlay g),
             roundCards := [], roundScore := 0, timeLeft := roundDuration g,
             intervals := [(nextHandle g, TimerTick)], nextHandle := nextHandle g + 1,
             timerInterval := Some (nextHandle g)\<rparr>)"
  using assms
  by (simp add: startRound_def Let_def updateCard_shown setInterval_def clearInterval_def
      split: option.splits)

lemma startCountdown_idle:
  assumes "intervals g = []"
  shows "state_of (startCountdown g) =
     (if teamAt (teams g) (currentTeamIndex g) = None
      then g\<lparr>state := GET_READY, countdownTime := COUNTDOWN_DURATION\<rparr>
      else g\<lparr>state := GET_READY, countdownTime := COUNTDOWN_DURATION,
             intervals := [(nextHandle g, CountdownTick)], nextHandle := nextHandle g + 1,
             countdownInterval := Some (nextHandle g)\<rparr>)"
  using assms
  by (simp add: startCountdown_def Let_def setInterval_def clearInterval_def split: option.splits)

lemma endRound_idle:
  assumes "intervals g = []" "teams_wf g"
  shows "state_of (endRound g) =
     (case teamAt (teams g) (currentTeamIndex g) of
        None \<Rightarrow> g
      | Some (i, t) \<Rightarrow>
          g\<lparr>teams := (teams g)[i := t\<lparr>score := score t + roundScore g\<rparr>],
            currentTeamIndex := succ_rem i (numberOfTeams g),
            totalRoundsCompleted := totalRoundsCompleted g + 1,
            state := (if numberOfTeams g * MAX_ROUNDS_PER_TEAM \<le> totalRoundsCompleted g + 1
                      then GAME_OVER else ROUND_OVER)\<rparr>)"
  using assms
  by (simp add: endRound_def Let_def clearInterval_def showFinalWinner_def split: option.splits)

lemma play_invI:
  "teams_wf g \<Longrightarrow> timers_ok g \<Longrightarrow> (in_game (state g) \<Longrightarrow> cards_ready g) \<Longrightarrow>
   total_ok (state g) (numberOfTeams g) (totalRoundsCompleted g) \<Longrightarrow> play_inv g"
  by (simp add: play_inv_def)

lemma total_ok_round:
  "s = GET_READY \<or> s = PLAYING \<or> s = REVIEW \<or> s = ROUND_OVER \<Longrightarrow>
   total_ok s T n \<longleftrightarrow> n < T * MAX_ROUNDS_PER_TEAM \<or> (T = 0 \<and> n = 0)"
  by auto

lemma answer_explicit:
  assumes "cards_ready g" "is_answer e"
  shows "state_of (step e g) =
     (if length (shuffledCards g) \<le> currentCardIndex g + 1
      then g\<lparr>roundCards := roundCards g @
               [\<lparr>word = targetWord (shuffledCards g ! currentCardIndex g), status = answer_status e\<rparr>],
             roundScore := (if answer_status e = Correct then roundScore g + 1 else roundScore g),
             currentCardIndex := 0,
             shuffledCards := shuffleArray (case e of CorrectBtn rnd \<Rightarrow> rnd | PassBtn rnd \<Rightarrow> rnd)
                (activeCards (cardData g) (selectedDecks g))\<rparr>
      else g\<lparr>roundCards := roundCards g @
               [\<lparr>word = targetWord (shuffledCards g ! currentCardIndex g), status = answer_status e\<rparr>],
             roundScore := (if answer_status e = Correct then roundScore g + 1 else roundScore g),
             currentCardIndex := currentCardIndex g + 1\<rparr>)"
proof (cases e)
  case (CorrectBtn rnd)
  then show ?thesis using assms(1)
    by (simp add: handleCorrect_def at_def cards_ready_def nextCard_cards)
next
  case (PassBtn rnd)
  then show ?thesis using assms(1)
    by (simp add: handlePass_def at_def cards_ready_def nextCard_cards)
qed (use assms(2) in simp_all)

lemma answer_play_inv:
  assumes "play_inv g" "state g = PLAYING" "is_answer e"
  shows "play_inv (state_of (step e g)) \<and> state (state_of (step e g)) = PLAYING"
proof -
  from assms have ready: "cards_ready g" by (simp add: play_inv_def)
  show ?thesis
    using assms(1,2) ready unfolding answer_explicit [OF ready assms(3)]
    by (simp add: play_inv_def teams_wf_def timers_ok_def cards_ready_def)
qed

lemma startRound_play_inv:
  assumes "teams_wf g" "intervals g = []" "cards_ready g"
    and "total_ok PLAYING (numberOfTeams g) (totalRoundsCompleted g)"
  shows "play_inv (state_of (startRound g)) \<and> state (state_of (startRound g)) = PLAYING \<and>
         roundCards (state_of (startRound g)) = []"
proof -
  from assms(3) have shown: "currentCardIndex g < length (shuffledCards g)"
    by (simp add: cards_ready_def)
  show ?thesis
    using assms unfolding startRound_idle [OF assms(2) shown]
    by (simp add: play_inv_def teams_wf_def timers_ok_def cards_ready_def)
qed

lemma startCountdown_play_inv:
  assumes "teams_wf g" "intervals g = []" "cards_ready g"
    and "total_ok GET_READY (numberOfTeams g) (totalRoundsCompleted g)"
  shows "play_inv (state_of (startCountdown g)) \<and> state (state_of (startCountdown g)) = GET_READY"
  using assms unfolding startCountdown_idle [OF assms(2)]
  by (simp add: play_inv_def teams_wf_def timers_ok_def cards_ready_def)

lemma skipCountdown_play_inv:
  assumes "play_inv g" "state g = GET_READY"
  shows "play_inv (state_of (skipCountdown g)) \<and> state (state_of (skipCountdown g)) = PLAYING \<and>
         roundCards (state_of (skipCountdown g)) = []"
proof -
  let ?g = "clearInterval (countdownInterval g) g"
  from assms have "teams_wf ?g" "intervals ?g = []" "cards_ready ?g"
    "total_ok PLAYING (numberOfTeams ?g) (totalRoundsCompleted ?g)"
    by (simp_all add: play_inv_def clearInterval_def teams_wf_def cards_ready_def
        timers_clear_countdown)
  from startRound_play_inv [OF this] show ?thesis
    by (simp add: skipCountdown_def)
qed

lemma countdownTick_play_inv:
  assumes "play_inv g" "state g = GET_READY"
  shows "play_inv (state_of (countdownTick g)) \<and>
         (state (state_of (countdownTick g)) = GET_READY \<or>
          state (state_of (countdownTick g)) = PLAYING \<and> roundCards (state_of (countdownTick g)) = [])"
proof (cases "countdownTime g - 1 \<le> 0")
  case True
  let ?g = "clearInterval (countdownInterval g) (g\<lparr>countdownTime := countdownTime g - 1\<rparr>)"
  from assms have "teams_wf ?g" "intervals ?g = []" "cards_ready ?g"
    "total_ok PLAYING (numberOfTeams ?g) (totalRoundsCompleted ?g)"
    by (simp_all add: play_inv_def clearInterval_def teams_wf_def cards_ready_def
        timers_clear_countdown)
  from startRound_play_inv [OF this] True show ?thesis
    by (simp add: countdownTick_def Let_def)
next
  case False
  with assms show ?thesis
    by (simp add: countdownTick_def Let_def play_inv_def teams_wf_def timers_ok_def cards_ready_def)
qed

lemma updateTimer_play_inv:
  assumes "play_inv g" "state g = PLAYING"
  shows "play_inv (updateTimer g)"
proof -
  from assms have "filter (\<lambda>(k, cb). Some k \<noteq> timerInterval g) (intervals g) = []"
    by (simp add: play_inv_def timers_clear_timer)
  with assms show ?thesis
    by (auto simp: updateTimer_def Let_def showReviewScreen_def clearInterval_def play_inv_def
        teams_wf_def timers_ok_def cards_ready_def)
qed

lemma togglePause_play_inv:
  assumes "play_inv g"
  shows "play_inv (togglePause g)"
proof (cases "state g = PLAYING")
  case False
  with assms show ?thesis by (simp add: togglePause_def)
next
  case True
  show ?thesis
  proof (cases "isPaused g")
    case True
    with \<open>state g = PLAYING\<close> assms have "intervals g = []"
      by (simp add: play_inv_def timers_paused)
    with True \<open>state g = PLAYING\<close> assms show ?thesis
      by (simp add: togglePause_def Let_def setInterval_def play_inv_def teams_wf_def
          timers_ok_def cards_ready_def)
  next
    case False
    with \<open>state g = PLAYING\<close> assms show ?thesis
      by (simp add: togglePause_def Let_def clearInterval_def play_inv_def teams_wf_def
          timers_ok_def cards_ready_def timers_clear_timer)
  qed
qed

lemma confirmScore_play_inv:
  assumes "play_inv g" "state g = REVIEW"
  shows "play_inv (state_of (confirmScore g))"
proof -
  let ?g = "g\<lparr>roundScore := correct_count (roundCards g)\<rparr>"
  from assms have idle: "intervals ?g = []" and wf: "teams_wf ?g"
    by (simp_all add: play_inv_def timers_idle teams_wf_def)
  have conf: "confirmScore g = endRound ?g"
    by (simp add: confirmScore_def correct_count_def)
  show ?thesis
  proof (cases "teamAt (teams g) (currentTeamIndex g)")
    case None
    with assms show ?thesis
      unfolding conf endRound_idle [OF idle wf]
      by (simp add: play_inv_def teams_wf_def timers_ok_def cards_ready_def)
  next
    case (Some it)
    obtain i t where it: "it = (i, t)" by (cases it)
    from Some it have i: "currentTeamIndex g = Num i" "i < length (teams g)"
      by (auto simp: teamAt_def at_def split: jsnum.splits if_splits)
    with assms have T: "numberOfTeams g = length (teams g)" "0 < length (teams g)"
      by (auto simp: play_inv_def teams_wf_def)
    from assms T have total: "totalRoundsCompleted g < length (teams g) * MAX_ROUNDS_PER_TEAM"
      by (auto simp: play_inv_def)
    have wf': "teams_wf (state_of (confirmScore g))"
      using assms by (simp add: confirmScore_wf play_inv_def)
    have rest: "timers_ok (state_of (confirmScore g))" "cards_ready (state_of (confirmScore g))"
      "total_ok (state (state_of (confirmScore g))) (numberOfTeams (state_of (confirmScore g)))
         (totalRoundsCompleted (state_of (confirmScore g)))"
      using assms Some it T total unfolding conf endRound_idle [OF idle wf]
      by (auto simp: play_inv_def timers_ok_def cards_ready_def Suc_le_eq)
    with wf' show ?thesis by (simp add: play_inv_def)
  qed
qed

lemma setupAndStartGame_play_inv:
  assumes "play_inv g" "state g = TEAM_SELECTION"
  shows "play_inv (state_of (setupAndStartGame n rnd g))"
proof (cases "activeCards (cardData g) (selectedDecks g) = []")
  case True
  from assms have "intervals g = []" by (simp add: play_inv_def timers_idle)
  with assms show ?thesis
    unfolding setupAndStartGame_no_cards [OF True]
    by (simp add: play_inv_def teams_wf_def timers_ok_def less_max_iff_disj)
next
  case False
  let ?g = "g\<lparr>numberOfTeams := n, teams := pushTeams 0 n [],
                  currentTeamIndex := Num 0, totalRoundsCompleted := 0,
                  shuffledCards := shuffleArray rnd (activeCards (cardData g) (selectedDecks g)),
                  currentCardIndex := 0\<rparr>"
  from assms have "intervals g = []" by (simp add: play_inv_def timers_idle)
  with False have "teams_wf ?g" "intervals ?g = []" "cards_ready ?g"
    "total_ok GET_READY (numberOfTeams ?g) (totalRoundsCompleted ?g)"
    by (auto simp: teams_wf_def pushTeams_eq less_max_iff_disj cards_ready_def
        MAX_ROUNDS_PER_TEAM_def)
  from startCountdown_play_inv [OF this] False show ?thesis
    by (simp add: setupAndStartGame_def Let_def)
qed

lemma quitGame_play_inv:
  assumes "play_inv g"
  shows "play_inv (quitGame c g)"
proof (cases c)
  case False
  with assms show ?thesis by (simp add: quitGame_def)
next
  case True
  from assms have "filter (\<lambda>(k, cb). Some k \<noteq> countdownInterval g)
      (filter (\<lambda>(k, cb). Some k \<noteq> timerInterval g) (intervals g)) = []"
    by (auto simp: play_inv_def timers_ok_def)
  with True assms show ?thesis
    by (simp add: quitGame_def clearInterval_def play_inv_def teams_wf_def timers_ok_def)
qed

lemma step_play_inv:
  assumes "play_inv g" "offered (state g) e"
  shows "play_inv (state_of (step e g))"
proof (cases e)
  case PlayNowBtn
  with assms show ?thesis
    by (simp add: play_inv_def teams_wf_def timers_ok_def)
next
  case NextRoundBtn
  with assms have "teams_wf g" "intervals g = []" "cards_ready g"
    "total_ok GET_READY (numberOfTeams g) (totalRoundsCompleted g)"
    by (simp_all add: play_inv_def timers_idle)
  from startCountdown_play_inv [OF this] NextRoundBtn show ?thesis by simp
next
  case NewGameBtn
  with assms have "intervals g = []" by (auto simp: play_inv_def timers_idle)
  with NewGameBtn assms show ?thesis
    by (simp add: resetGame_def clearInterval_def play_inv_def teams_wf_def timers_ok_def)
next
  case SkipCountdownBtn
  with assms skipCountdown_play_inv [of g] show ?thesis by simp
next
  case (CorrectBtn rnd)
  with assms answer_play_inv [of g e] show ?thesis by simp
next
  case (PassBtn rnd)
  with assms answer_play_inv [of g e] show ?thesis by simp
next
  case ConfirmScoreBtn
  with assms confirmScore_play_inv [of g] show ?thesis by simp
next
  case PauseBtn
  with assms togglePause_play_inv [of g] show ?thesis by simp
next
  case (QuitBtn c)
  with assms quitGame_play_inv [of g c] show ?thesis by simp
next
  case (TeamCountBtn n rnd)
  with assms setupAndStartGame_play_inv [of g n rnd] show ?thesis by simp
next
  case (DeckOption deck)
  with assms show ?thesis
    by (simp add: toggleDeck_def play_inv_def teams_wf_def timers_ok_def)
next
  case (TimerBtn d)
  with assms show ?thesis
    by (simp add: setRoundDuration_def play_inv_def teams_wf_def timers_ok_def cards_ready_def)
next
  case (ToggleCardStatus i)
  with assms show ?thesis
    by (simp add: toggleCardStatus_def play_inv_def teams_wf_def timers_ok_def cards_ready_def
        split: option.splits)
next
  case (Fire h)
  show ?thesis
  proof (cases "map_of (intervals g) h")
    case None
    with Fire assms show ?thesis by simp
  next
    case (Some cb)
    from assms(1) have "timers_ok g" by (simp add: play_inv_def)
    from timers_fire [OF this Some] show ?thesis
    proof
      assume "cb = CountdownTick \<and> state g = GET_READY"
      with Fire Some assms countdownTick_play_inv [of g] show ?thesis by simp
    next
      assume "cb = TimerTick \<and> state g = PLAYING \<and> \<not> isPaused g"
      with Fire Some assms updateTimer_play_inv [of g] show ?thesis by simp
    qed
  qed
qed

lemma played_play_inv: "played g \<Longrightarrow> play_inv g"
proof (induction rule: played.induct)
  case (played_new cd overlay btn)
  show ?case
    by (simp add: newGame_def play_inv_def teams_wf_def timers_ok_def)
next
  case (played_step g e)
  then show ?case by (simp add: step_play_inv)
qed

lemma played_reachable: "played g \<Longrightarrow> reachable g"
  by (induction rule: played.induct) (auto intro: reachable.intros)

lemma played_run: "played g \<Longrightarrow> all_offered es g \<Longrightarrow> played (run es g)"
  by (induction es arbitrary: g) (auto intro: played.played_step)

lemma played_demo: "all_offered es demoStart \<Longrightarrow> played (run es demoStart)"
  unfolding demoStart_def by (rule played_run) (rule played.played_new)

lemma step_state:
  assumes "play_inv g" "offered (state g) e"
  shows "state (state_of (step e g)) = state g \<or>
     (e = PlayNowBtn \<and> state (state_of (step e g)) = TEAM_SELECTION) \<or>
     (e = NewGameBtn \<and> state (state_of (step e g)) = TEAM_SELECTION) \<or>
     ((\<exists>c. e = QuitBtn c) \<and> state (state_of (step e g)) = WELCOME) \<or>
     ((\<exists>n rnd. e = TeamCountBtn n rnd) \<and> state (state_of (step e g)) = GET_READY) \<or>
     (e = NextRoundBtn \<and> state (state_of (step e g)) = GET_READY) \<or>
     (state g = GET_READY \<and> (e = SkipCountdownBtn \<or> (\<exists>h. e = Fire h)) \<and>
        state (state_of (step e g)) = PLAYING \<and> roundCards (state_of (step e g)) = []) \<or>
     (state g = PLAYING \<and> (\<exists>h. e = Fire h) \<and> state (state_of (step e g)) = REVIEW) \<or>
     (state g = REVIEW \<and> e = ConfirmScoreBtn \<and>
        (state (state_of (step e g)) = ROUND_OVER \<or> state (state_of (step e g)) = GAME_OVER))"
proof (cases e)
  case PlayNowBtn
  then show ?thesis by simp
next
  case NextRoundBtn
  with assms have "intervals g = []" by (simp add: play_inv_def timers_idle)
  with NextRoundBtn show ?thesis by (simp add: startCountdown_idle)
next
  case NewGameBtn
  then show ?thesis by (simp add: resetGame_def)
next
  case SkipCountdownBtn
  with assms skipCountdown_play_inv [of g] show ?thesis by simp
next
  case (CorrectBtn rnd)
  with assms answer_play_inv [of g e] show ?thesis by simp
next
  case (PassBtn rnd)
  with assms answer_play_inv [of g e] show ?thesis by simp
next
  case ConfirmScoreBtn
  let ?g = "g\<lparr>roundScore := correct_count (roundCards g)\<rparr>"
  from ConfirmScoreBtn assms have idle: "intervals ?g = []" and wf: "teams_wf ?g"
    by (simp_all add: play_inv_def timers_idle teams_wf_def)
  have conf: "confirmScore g = endRound ?g"
    by (simp add: confirmScore_def correct_count_def)
  from ConfirmScoreBtn assms show ?thesis
    unfolding step.simps ConfirmScoreBtn conf endRound_idle [OF idle wf]
    by (simp split: option.splits)
next
  case PauseBtn
  then show ?thesis by (simp add: togglePause_def Let_def setInterval_def clearInterval_def)
next
  case (QuitBtn c)
  then show ?thesis by (simp add: quitGame_def)
next
  case (TeamCountBtn n rnd)
  from TeamCountBtn assms have idle: "intervals g = []" by (simp add: play_inv_def timers_idle)
  show ?thesis
  proof (cases "activeCards (cardData g) (selectedDecks g) = []")
    case True
    with TeamCountBtn show ?thesis by (simp add: setupAndStartGame_no_cards)
  next
    case False
    with TeamCountBtn idle show ?thesis
      by (simp add: setupAndStartGame_def Let_def startCountdown_idle)
  qed
next
  case (DeckOption deck)
  then show ?thesis by (simp add: toggleDeck_def)
next
  case (TimerBtn d)
  then show ?thesis by (simp add: setRoundDuration_def)
next
  case (ToggleCardStatus i)
  then show ?thesis by (simp add: toggleCardStatus_def split: option.splits)
next
  case (Fire h)
  show ?thesis
  proof (cases "map_of (intervals g) h")
    case None
    with Fire show ?thesis by simp
  next
    case (Some cb)
    from assms(1) have "timers_ok g" by (simp add: play_inv_def)
    from timers_fire [OF this Some] show ?thesis
    proof
      assume "cb = CountdownTick \<and> state g = GET_READY"
      with Fire Some assms countdownTick_play_inv [of g] show ?thesis by auto
    next
      assume "cb = TimerTick \<and> state g = PLAYING \<and> \<not> isPaused g"
      with Fire Some show ?thesis
        by (simp add: updateTimer_def Let_def showReviewScreen_def clearInterval_def)
    qed
  qed
qed

lemma round_start:
  assumes "play_inv g" "offered (state g) e" "state g \<noteq> PLAYING"
    and "state (state_of (step e g)) = PLAYING"
  shows "state g = GET_READY \<and> roundCards (state_of (step e g)) = []"
  using step_state [OF assms(1,2)] assms(3,4) by auto

lemma game_over_entry:
  assumes "play_inv g" "offered (state g) e" "state g \<noteq> GAME_OVER"
    and "state (state_of (step e g)) = GAME_OVER"
  shows "state g = REVIEW \<and> e = ConfirmScoreBtn"
  using step_state [OF assms(1,2)] assms(3,4) by auto

lemma roundCards_updateTimer: "roundCards (updateTimer g) = roundCards g"
  by (simp add: updateTimer_def Let_def showReviewScreen_def clearInterval_def)

lemma playing_step_record:
  assumes "play_inv g" "state g = PLAYING" "offered PLAYING e"
  shows "map status (roundCards (state_of (step e g))) =
     map status (roundCards g) @ map answer_status (filter is_answer [e])"
proof (cases e)
  case (CorrectBtn rnd)
  with assms have "cards_ready g" "is_answer e" by (simp_all add: play_inv_def)
  from answer_explicit [OF this] CorrectBtn show ?thesis by simp
next
  case (PassBtn rnd)
  with assms have "cards_ready g" "is_answer e" by (simp_all add: play_inv_def)
  from answer_explicit [OF this] PassBtn show ?thesis by simp
next
  case PauseBtn
  then show ?thesis by (simp add: togglePause_def Let_def setInterval_def clearInterval_def)
next
  case (QuitBtn c)
  then show ?thesis by (simp add: quitGame_def clearInterval_def)
next
  case (TimerBtn d)
  then show ?thesis by (simp add: setRoundDuration_def)
next
  case (Fire h)
  show ?thesis
  proof (cases "map_of (intervals g) h")
    case None
    with Fire show ?thesis by simp
  next
    case (Some cb)
    from assms(1) have "timers_ok g" by (simp add: play_inv_def)
    from timers_fire [OF this Some] assms(2) have "cb = TimerTick" by auto
    with Fire Some show ?thesis by (simp add: roundCards_updateTimer)
  qed
qed (use assms(3) in simp_all)

lemma during_play_record:
  assumes "play_inv g" "during_play es g"
  shows "map status (roundCards (run es g)) =
     map status (roundCards g) @ map answer_status (filter is_answer es)"
  using assms
proof (induction es arbitrary: g)
  case Nil
  then show ?case by simp
next
  case (Cons e es)
  then have e: "state g = PLAYING" "offered PLAYING e" "during_play es (state_of (step e g))"
    by simp_all
  with Cons.prems(1) have "play_inv (state_of (step e g))"
    by (simp add: step_play_inv)
  from Cons.IH [OF this e(3)] playing_step_record [OF Cons.prems(1) e(1,2)]
  show ?case by simp
qed

lemma answers_during_play:
  assumes "play_inv g" "state g = PLAYING" "\<forall>e \<in> set es. is_answer e"
  shows "during_play es g \<and> state (run es g) = PLAYING"
  using assms
proof (induction es arbitrary: g)
  case Nil
  then show ?case by simp
next
  case (Cons e es)
  then have a: "is_answer e" by simp
  then have off: "offered PLAYING e" by (cases e) simp_all
  from answer_play_inv [OF Cons.prems(1,2) a] Cons.IH [of "state_of (step e g)"] Cons.prems off
  show ?case by simp
qed

lemma total_ok_le: "total_ok s T n \<Longrightarrow> n \<le> T * MAX_ROUNDS_PER_TEAM"
  by (cases s) auto

lemma confirmScore_no_team:
  assumes "teams_wf g" "numberOfTeams g = 0"
  shows "state (state_of (confirmScore g)) = state g \<and>
         totalRoundsCompleted (state_of (confirmScore g)) = totalRoundsCompleted g"
  using assms
  by (simp add: confirmScore_def endRound_def Let_def clearInterval_def teams_wf_def teamAt_def
      at_def split: jsnum.splits)

lemma teams_wf_session: "teams_wf g \<Longrightarrow> 1 \<le> numberOfTeams g \<Longrightarrow> session_of (numberOfTeams g) g"
  by (simp add: teams_wf_def session_of_def max_def)

section \<open>Properties of the game manager\<close>

text \<open>
  C1. A correct or pass action appends one entry to the round record, with the word of the
  card on display and the status of the action, and appends nothing when no card is on
  display. In a session whose controls are pressed on their screens a card is on display
  from the get-ready screen on. There every round, whichever step brings the game screen
  up, starts with an empty record, and whatever happens on the game screen (answers,
  pauses, ticks of the timer) the record has one entry for each answer, in their order:
  after \<open>N\<close> correct or pass actions it has exactly \<open>N\<close> entries. Toggling entries on the
  review screen never touches \<open>roundScore\<close>; \<open>confirmScore\<close> sets it, whatever was toggled
  before and also when \<open>endRound\<close> throws, to the number of entries that are \<open>correct\<close> at
  that moment.
\<close>

theorem round_record_and_confirmScore:
  "(is_answer a \<longrightarrow>
      roundCards (state_of (step a h)) =
        (case at (shuffledCards h) (currentCardIndex h) of
           None \<Rightarrow> roundCards h
         | Some c \<Rightarrow> roundCards h @ [\<lparr>word = targetWord c, status = answer_status a\<rparr>])) \<and>
   (played g \<and> in_game (state g) \<longrightarrow> cards_ready g) \<and>
   (played g \<and> offered (state g) e \<and> state g \<noteq> PLAYING \<and>
    state (state_of (step e g)) = PLAYING \<longrightarrow>
      roundCards (state_of (step e g)) = [] \<and>
      (during_play es (state_of (step e g)) \<longrightarrow>
         map status (roundCards (run es (state_of (step e g)))) =
           map answer_status (filter is_answer es) \<and>
         length (roundCards (run es (state_of (step e g)))) = length (filter is_answer es)) \<and>
      ((\<forall>a \<in> set es. is_answer a) \<longrightarrow>
         during_play es (state_of (step e g)) \<and>
         map status (roundCards (run es (state_of (step e g)))) = map answer_status es \<and>
         length (roundCards (run es (state_of (step e g)))) = length es)) \<and>
   (cards_ready g \<and> (\<forall>a \<in> set es. is_answer a) \<longrightarrow>
      map status (roundCards (run es (state_of (startRound g)))) = map answer_status es \<and>
      length (roundCards (run es (state_of (startRound g)))) = length es) \<and>
   roundScore (fold toggleCardStatus is h) = roundScore h \<and>
   length (roundCards (fold toggleCardStatus is h)) = length (roundCards h) \<and>
   roundScore (state_of (confirmScore (fold toggleCardStatus is h))) =
     correct_count (roundCards (fold toggleCardStatus is h)) \<and>
   roundCards (state_of (confirmScore h)) = roundCards h"
proof (intro conjI impI)
  show "roundCards (state_of (step a h)) =
        (case at (shuffledCards h) (currentCardIndex h) of
           None \<Rightarrow> roundCards h
         | Some c \<Rightarrow> roundCards h @ [\<lparr>word = targetWord c, status = answer_status a\<rparr>])"
    if "is_answer a"
    using that by (rule answer_roundCards)
  show "cards_ready g" if "played g \<and> in_game (state g)"
    using that played_play_inv [of g] by (simp add: play_inv_def)
  show old: "map status (roundCards (run es (state_of (startRound g)))) = map answer_status es"
    if "cards_ready g \<and> (\<forall>a \<in> set es. is_answer a)"
    using answers_ready [of "state_of (startRound g)" es] startRound_ready [of g] that by simp
  show "length (roundCards (run es (state_of (startRound g)))) = length es"
    if "cards_ready g \<and> (\<forall>a \<in> set es. is_answer a)"
    using arg_cong [OF old [OF that], of length] by simp
  show "roundScore (fold toggleCardStatus is h) = roundScore h"
    "length (roundCards (fold toggleCardStatus is h)) = length (roundCards h)"
    "roundScore (state_of (confirmScore (fold toggleCardStatus is h))) =
       correct_count (roundCards (fold toggleCardStatus is h))"
    "roundCards (state_of (confirmScore h)) = roundCards h"
    by (simp_all add: fold_toggle_fields confirmScore_score)
next
  assume round: "played g \<and> offered (state g) e \<and> state g \<noteq> PLAYING \<and>
    state (state_of (step e g)) = PLAYING"
  let ?g0 = "state_of (step e g)"
  from round have inv: "play_inv g" by (simp add: played_play_inv)
  with round have inv0: "play_inv ?g0" by (simp add: step_play_inv)
  from round have "offered (state g) e" "state g \<noteq> PLAYING" "state ?g0 = PLAYING"
    by simp_all
  from round_start [OF inv this] show empty: "roundCards ?g0 = []" by simp
  have entries: "map status (roundCards (run es ?g0)) = map answer_status (filter is_answer es)"
    if "during_play es ?g0" for es
    using during_play_record [OF inv0 that] empty by simp
  show "map status (roundCards (run es ?g0)) = map answer_status (filter is_answer es)"
    if "during_play es ?g0"
    using that by (rule entries)
  show "length (roundCards (run es ?g0)) = length (filter is_answer es)"
    if "during_play es ?g0"
    using arg_cong [OF entries [OF that], of length] by simp
  assume answers: "\<forall>a \<in> set es. is_answer a"
  then have all: "filter is_answer es = es" by simp
  from answers_during_play [OF inv0 _ answers] round
  show play: "during_play es ?g0" by simp
  from entries [OF play] show "map status (roundCards (run es ?g0)) = map answer_status es"
    by (simp add: all)
  from arg_cong [OF entries [OF play], of length]
  show "length (roundCards (run es ?g0)) = length es"
    by (simp add: all)
qed

text \<open>
  C1 on the sample session: the countdown skipped on the get-ready screen, a correct
  answer and a pass give the record \<open>[correct, skipped]\<close>; with entry 1 toggled, then
  entry 0 toggled twice, the confirmed score is 2.
\<close>

theorem round_record_and_confirmScore_witness:
  "played gameReady \<and> offered (state gameReady) SkipCountdownBtn \<and> state gameReady \<noteq> PLAYING \<and>
   state (state_of (step SkipCountdownBtn gameReady)) = PLAYING \<and>
   is_answer (CorrectBtn keepOrder) \<and> is_answer (PassBtn keepOrder) \<and>
   map status (roundCards (run [CorrectBtn keepOrder, PassBtn keepOrder]
       (state_of (step SkipCountdownBtn gameReady)))) = [Correct, Skipped] \<and>
   length (roundCards (run [CorrectBtn keepOrder, PassBtn keepOrder]
       (state_of (step SkipCountdownBtn gameReady)))) = 2 \<and>
   roundScore (state_of (confirmScore (fold toggleCardStatus [1, 0, 0]
       (run [CorrectBtn keepOrder, PassBtn keepOrder]
          (state_of (step SkipCountdownBtn gameReady)))))) = 2"
proof -
  have "all_offered [PlayNowBtn, TeamCountBtn 2 keepOrder] demoStart" by code_simp
  then have game: "played gameReady"
    unfolding gameReady_def by (rule played_demo)
  have screen: "offered (state gameReady) SkipCountdownBtn" "state gameReady \<noteq> PLAYING"
    "state (state_of (step SkipCountdownBtn gameReady)) = PLAYING"
    by code_simp+
  have answers: "\<forall>a \<in> set [CorrectBtn keepOrder, PassBtn keepOrder]. is_answer a" by simp
  have count: "correct_count (roundCards (fold toggleCardStatus [1, 0, 0]
       (run [CorrectBtn keepOrder, PassBtn keepOrder]
          (state_of (step SkipCountdownBtn gameReady))))) = 2"
    by code_simp
  from round_record_and_confirmScore [of "CorrectBtn keepOrder"
        "run [CorrectBtn keepOrder, PassBtn keepOrder] (state_of (step SkipCountdownBtn gameReady))"
        gameReady SkipCountdownBtn "[CorrectBtn keepOrder, PassBtn keepOrder]" "[1, 0, 0]"]
    game screen answers
  have "map status (roundCards (run [CorrectBtn keepOrder, PassBtn keepOrder]
       (state_of (step SkipCountdownBtn gameReady)))) =
          map answer_status [CorrectBtn keepOrder, PassBtn keepOrder]"
    "length (roundCards (run [CorrectBtn keepOrder, PassBtn keepOrder]
       (state_of (step SkipCountdownBtn gameReady)))) = length [CorrectBtn keepOrder, PassBtn keepOrder]"
    "roundScore (state_of (confirmScore (fold toggleCardStatus [1, 0, 0]
       (run [CorrectBtn keepOrder, PassBtn keepOrder]
          (state_of (step SkipCountdownBtn gameReady)))))) =
     correct_count (roundCards (fold toggleCardStatus [1, 0, 0]
       (run [CorrectBtn keepOrder, PassBtn keepOrder]
          (state_of (step SkipCountdownBtn gameReady)))))"
    by blast+
  with game screen count show ?thesis by simp
qed

text \<open>
  C2. In a session whose controls are pressed on their screens and that has
  \<open>T = numberOfTeams\<close> teams, the state after the confirmation of a round is \<open>GAME_OVER\<close>
  exactly when the confirmation has incremented \<open>totalRoundsCompleted\<close> and the
  incremented total equals \<open>T * MAX_ROUNDS_PER_TEAM\<close>. With at least one team the
  confirmation returns with the total incremented, and the state after it is \<open>ROUND_OVER\<close>
  exactly when the incremented total is below \<open>T * MAX_ROUNDS_PER_TEAM\<close>: whose turn is
  next plays no part. The total never exceeds \<open>T * MAX_ROUNDS_PER_TEAM\<close>, it is below it
  at every review screen of a game with teams, so no later round is confirmed, and
  \<open>GAME_OVER\<close> is entered by no other step than the confirmation on the review screen.
\<close>

theorem game_over_exactly_at_last_round:
  "(played g \<and> state g = REVIEW \<longrightarrow>
      (state (state_of (confirmScore g)) = GAME_OVER \<longleftrightarrow>
         totalRoundsCompleted (state_of (confirmScore g)) = totalRoundsCompleted g + 1 \<and>
         totalRoundsCompleted (state_of (confirmScore g)) =
           numberOfTeams g * MAX_ROUNDS_PER_TEAM)) \<and>
   (played g \<and> state g = REVIEW \<and> 1 \<le> numberOfTeams g \<longrightarrow>
      totalRoundsCompleted g < numberOfTeams g * MAX_ROUNDS_PER_TEAM \<and>
      (\<exists>g'. confirmScore g = Returned g' \<and> numberOfTeams g' = numberOfTeams g \<and>
         totalRoundsCompleted g' = totalRoundsCompleted g + 1 \<and>
         (state g' = GAME_OVER \<longleftrightarrow>
            totalRoundsCompleted g' = numberOfTeams g * MAX_ROUNDS_PER_TEAM) \<and>
         (state g' = ROUND_OVER \<longleftrightarrow>
            totalRoundsCompleted g' < numberOfTeams g * MAX_ROUNDS_PER_TEAM))) \<and>
   (played g \<longrightarrow>
      totalRoundsCompleted g \<le> numberOfTeams g * MAX_ROUNDS_PER_TEAM \<and>
      (state g = GAME_OVER \<longrightarrow>
         1 \<le> numberOfTeams g \<and>
         totalRoundsCompleted g = numberOfTeams g * MAX_ROUNDS_PER_TEAM)) \<and>
   (played g \<and> offered (state g) e \<and> state g \<noteq> GAME_OVER \<and>
    state (state_of (step e g)) = GAME_OVER \<longrightarrow>
      state g = REVIEW \<and> e = ConfirmScoreBtn \<and>
      totalRoundsCompleted (state_of (step e g)) = numberOfTeams g * MAX_ROUNDS_PER_TEAM)"
proof (intro conjI impI)
  show "totalRoundsCompleted g \<le> numberOfTeams g * MAX_ROUNDS_PER_TEAM" if "played g"
    using played_play_inv [OF that] by (auto simp: play_inv_def intro: total_ok_le)
  show "1 \<le> numberOfTeams g" "totalRoundsCompleted g = numberOfTeams g * MAX_ROUNDS_PER_TEAM"
    if "played g" "state g = GAME_OVER"
    using played_play_inv [OF that(1)] that(2) by (simp_all add: play_inv_def)
next
  assume review: "played g \<and> state g = REVIEW \<and> 1 \<le> numberOfTeams g"
  then have inv: "play_inv g" by (simp add: played_play_inv)
  with review show below: "totalRoundsCompleted g < numberOfTeams g * MAX_ROUNDS_PER_TEAM"
    by (auto simp: play_inv_def)
  from inv review have session: "session_of (numberOfTeams g) g"
    by (simp add: play_inv_def teams_wf_session)
  then obtain i where i: "currentTeamIndex g = Num i"
    by (rule session_ofD)
  from confirmScore_session [OF session i] obtain g' where g':
    "confirmScore g = Returned g'" "session_of (numberOfTeams g) g'"
    "totalRoundsCompleted g' = totalRoundsCompleted g + 1"
    "state g' = (if numberOfTeams g * 3 \<le> totalRoundsCompleted g + 1 then GAME_OVER else ROUND_OVER)"
    by blast
  show "\<exists>g'. confirmScore g = Returned g' \<and> numberOfTeams g' = numberOfTeams g \<and>
         totalRoundsCompleted g' = totalRoundsCompleted g + 1 \<and>
         (state g' = GAME_OVER \<longleftrightarrow>
            totalRoundsCompleted g' = numberOfTeams g * MAX_ROUNDS_PER_TEAM) \<and>
         (state g' = ROUND_OVER \<longleftrightarrow>
            totalRoundsCompleted g' < numberOfTeams g * MAX_ROUNDS_PER_TEAM)"
  proof (intro exI [of _ g'] conjI)
    show "confirmScore g = Returned g'" "totalRoundsCompleted g' = totalRoundsCompleted g + 1"
      by fact+
    show "numberOfTeams g' = numberOfTeams g"
      using g'(2) by (simp add: session_of_def)
    show "state g' = GAME_OVER \<longleftrightarrow>
        totalRoundsCompleted g' = numberOfTeams g * MAX_ROUNDS_PER_TEAM"
      using g'(3,4) below by (auto simp: MAX_ROUNDS_PER_TEAM_def)
    show "state g' = ROUND_OVER \<longleftrightarrow>
        totalRoundsCompleted g' < numberOfTeams g * MAX_ROUNDS_PER_TEAM"
      using g'(3,4) by (simp add: MAX_ROUNDS_PER_TEAM_def)
  qed
next
  assume review: "played g \<and> state g = REVIEW"
  then have inv: "play_inv g" by (simp add: played_play_inv)
  show "state (state_of (confirmScore g)) = GAME_OVER \<longleftrightarrow>
         totalRoundsCompleted (state_of (confirmScore g)) = totalRoundsCompleted g + 1 \<and>
         totalRoundsCompleted (state_of (confirmScore g)) =
           numberOfTeams g * MAX_ROUNDS_PER_TEAM"
  proof (cases "numberOfTeams g = 0")
    case True
    from inv have "teams_wf g" by (simp add: play_inv_def)
    from confirmScore_no_team [OF this True] review show ?thesis by simp
  next
    case False
    from inv review False
    have below: "totalRoundsCompleted g < numberOfTeams g * MAX_ROUNDS_PER_TEAM"
      by (auto simp: play_inv_def)
    from inv False have session: "session_of (numberOfTeams g) g"
      by (simp add: play_inv_def teams_wf_session)
    then obtain i where i: "currentTeamIndex g = Num i"
      by (rule session_ofD)
    from confirmScore_session [OF session i] obtain g' where g':
      "confirmScore g = Returned g'" "totalRoundsCompleted g' = totalRoundsCompleted g + 1"
      "state g' = (if numberOfTeams g * 3 \<le> totalRoundsCompleted g + 1 then GAME_OVER else ROUND_OVER)"
      by blast
    with below show ?thesis by (auto simp: MAX_ROUNDS_PER_TEAM_def)
  qed
next
  assume enter: "played g \<and> offered (state g) e \<and> state g \<noteq> GAME_OVER \<and>
    state (state_of (step e g)) = GAME_OVER"
  then have inv: "play_inv g" by (simp add: played_play_inv)
  from enter have "offered (state g) e" "state g \<noteq> GAME_OVER"
    "state (state_of (step e g)) = GAME_OVER"
    by simp_all
  from game_over_entry [OF inv this]
  show "state g = REVIEW" "e = ConfirmScoreBtn" by simp_all
  from inv enter have inv': "play_inv (state_of (step e g))"
    by (simp add: step_play_inv)
  have "numberOfTeams (state_of (step e g)) = numberOfTeams g"
    using \<open>e = ConfirmScoreBtn\<close>
    by (simp add: confirmScore_def endRound_def Let_def clearInterval_def showFinalWinner_def
        split: option.splits prod.splits)
  with inv' enter
  show "totalRoundsCompleted (state_of (step e g)) = numberOfTeams g * MAX_ROUNDS_PER_TEAM"
    by (simp add: play_inv_def)
qed

text \<open>
  C2 on the sample session. One team at the review screen of its third round: the
  confirmation makes the total 3 and the game over. Two teams at the review screen of the
  first round: the confirmation makes the total 1, below 6, and the round over.
\<close>

theorem game_over_exactly_at_last_round_witness:
  "played lastReview \<and> state lastReview = REVIEW \<and> numberOfTeams lastReview = 1 \<and>
   totalRoundsCompleted lastReview = 2 \<and>
   state (state_of (confirmScore lastReview)) = GAME_OVER \<and>
   totalRoundsCompleted (state_of (confirmScore lastReview)) = 3 \<and>
   played gameReview \<and> state gameReview = REVIEW \<and> numberOfTeams gameReview = 2 \<and>
   state (state_of (confirmScore gameReview)) = ROUND_OVER \<and>
   totalRoundsCompleted (state_of (confirmScore gameReview)) = 1"
proof -
  have "all_offered ([PlayNowBtn, TeamCountBtn 1 keepOrder] @ timedRound 2 @
          [ConfirmScoreBtn, NextRoundBtn] @ timedRound 4 @ [ConfirmScoreBtn, NextRoundBtn] @
          timedRound 6) demoStart"
    by code_simp
  then have last: "played lastReview"
    unfolding lastReview_def by (rule played_demo)
  have "all_offered ([PlayNowBtn, TeamCountBtn 2 keepOrder] @ timedRound 2) demoStart"
    by code_simp
  then have first: "played gameReview"
    unfolding gameReview_def by (rule played_demo)
  have l: "state lastReview = REVIEW" "numberOfTeams lastReview = 1"
    "totalRoundsCompleted lastReview = 2"
    and f: "state gameReview = REVIEW" "numberOfTeams gameReview = 2"
    "totalRoundsCompleted gameReview = 0"
    by code_simp+
  from game_over_exactly_at_last_round [of lastReview ConfirmScoreBtn] last l
  obtain g1 where g1: "confirmScore lastReview = Returned g1"
    "totalRoundsCompleted g1 = totalRoundsCompleted lastReview + 1"
    "state g1 = GAME_OVER \<longleftrightarrow> totalRoundsCompleted g1 = numberOfTeams lastReview * MAX_ROUNDS_PER_TEAM"
    by auto
  from game_over_exactly_at_last_round [of gameReview ConfirmScoreBtn] first f
  obtain g2 where g2: "confirmScore gameReview = Returned g2"
    "totalRoundsCompleted g2 = totalRoundsCompleted gameReview + 1"
    "state g2 = ROUND_OVER \<longleftrightarrow> totalRoundsCompleted g2 < numberOfTeams gameReview * MAX_ROUNDS_PER_TEAM"
    by auto
  from last first l f g1 g2 show ?thesis
    by (simp add: MAX_ROUNDS_PER_TEAM_def)
qed

text \<open>
  C3. Every session that can be reached from a new game manager and has \<open>T \<ge> 1\<close> teams
  has \<open>T\<close> team records and the turn at one of them, team \<open>i\<close>. There a round confirmation
  adds the confirmed score to team \<open>i\<close> and to no other team, and then moves the turn to
  \<open>(i + 1) mod T\<close>; after \<open>T\<close> confirmations in a row the turn is at team \<open>i\<close> again.
\<close>

theorem turn_rotation:
  "(reachable g \<and> 1 \<le> numberOfTeams g \<longrightarrow> session_of (numberOfTeams g) g) \<and>
   (session_of T g \<longrightarrow>
      (\<exists>i < T. currentTeamIndex g = Num i \<and>
         (\<exists>g'. confirmScore g = Returned g' \<and>
            currentTeamIndex g' = Num ((i + 1) mod T) \<and>
            teams g' = (teams g)[i := (teams g ! i)
               \<lparr>score := score (teams g ! i) + correct_count (roundCards g)\<rparr>]) \<and>
         (\<exists>g'. confirmRounds T g = Returned g' \<and> currentTeamIndex g' = Num i)))"
proof (intro conjI impI)
  show "session_of (numberOfTeams g) g" if "reachable g \<and> 1 \<le> numberOfTeams g"
    using that reachable_session by blast
next
  assume session: "session_of T g"
  then obtain i where i: "currentTeamIndex g = Num i" "i < T"
    by (rule session_ofD)
  then have "(i + T) mod T = i" by simp
  with confirmRounds_session [OF session i(1), of T] confirmScore_session [OF session i(1)] i
  show "\<exists>i < T. currentTeamIndex g = Num i \<and>
         (\<exists>g'. confirmScore g = Returned g' \<and>
            currentTeamIndex g' = Num ((i + 1) mod T) \<and>
            teams g' = (teams g)[i := (teams g ! i)
               \<lparr>score := score (teams g ! i) + correct_count (roundCards g)\<rparr>]) \<and>
         (\<exists>g'. confirmRounds T g = Returned g' \<and> currentTeamIndex g' = Num i)"
    by auto
qed

text \<open>
  C3 on the sample session: team 0 of two has the turn; the confirmation gives it the one
  point of the round and the turn to team 1, a second confirmation gives the turn back.
\<close>

theorem turn_rotation_witness:
  "reachable demoReview \<and> numberOfTeams demoReview = 2 \<and> session_of 2 demoReview \<and>
   currentTeamIndex demoReview = Num 0 \<and>
   currentTeamIndex (state_of (confirmScore demoReview)) = Num 1 \<and>
   map score (teams (state_of (confirmScore demoReview))) = [1, 0] \<and>
   currentTeamIndex (state_of (confirmRounds 2 demoReview)) = Num 0"
proof -
  have reach: "reachable demoReview"
    unfolding demoReview_def by (rule reachable_demo)
  have two: "numberOfTeams demoReview = 2" and turn: "currentTeamIndex demoReview = Num 0"
    and scores: "map score (teams demoReview) = [0, 0]" "correct_count (roundCards demoReview) = 1"
      "length (teams demoReview) = 2"
    by code_simp+
  from turn_rotation [of demoReview 2] reach two
  have session: "session_of 2 demoReview" by simp
  with turn_rotation [of demoReview 2] turn obtain g1 g2 where
    "confirmScore demoReview = Returned g1" "currentTeamIndex g1 = Num ((0 + 1) mod 2)"
    "teams g1 = (teams demoReview)[0 := (teams demoReview ! 0)
        \<lparr>score := score (teams demoReview ! 0) + correct_count (roundCards demoReview)\<rparr>]"
    "confirmRounds 2 demoReview = Returned g2" "currentTeamIndex g2 = Num 0"
    by auto
  with reach two session turn scores show ?thesis
    by (cases "teams demoReview") (auto simp: map_update)
qed

text \<open>
  C4. \<open>toggleDeck\<close> on the only selected deck returns \<open>false\<close> and changes nothing; on a
  selected deck that is not the only one it removes the deck and returns \<open>true\<close>; on a deck
  that is not selected it adds the deck and returns \<open>true\<close>. No handler, no interval
  callback and no other method of the game manager changes the set, so nothing empties
  it: it has at least one element in every session that can be reached from a new game
  manager.
\<close>

theorem selectedDecks_never_empty:
  "(selectedDecks g = [deck] \<longrightarrow> toggleDeck deck g = (False, g)) \<and>
   (deck \<in> set (selectedDecks g) \<and> 1 < length (selectedDecks g) \<longrightarrow>
      toggleDeck deck g = (True, g\<lparr>selectedDecks := removeAll deck (selectedDecks g)\<rparr>)) \<and>
   (deck \<notin> set (selectedDecks g) \<longrightarrow>
      toggleDeck deck g = (True, g\<lparr>selectedDecks := selectedDecks g @ [deck]\<rparr>)) \<and>
   (distinct (selectedDecks g) \<and> 1 \<le> length (selectedDecks g) \<longrightarrow>
      distinct (selectedDecks (state_of (step e g))) \<and>
      1 \<le> length (selectedDecks (state_of (step e g)))) \<and>
   ((\<forall>d. e \<noteq> DeckOption d) \<longrightarrow> selectedDecks (state_of (step e g)) = selectedDecks g) \<and>
   selectedDecks (state_of (startRound g)) = selectedDecks g \<and>
   selectedDecks (state_of (updateCard g)) = selectedDecks g \<and>
   selectedDecks (state_of (nextCard rnd g)) = selectedDecks g \<and>
   selectedDecks (state_of (endRound g)) = selectedDecks g \<and>
   selectedDecks (updateTimer g) = selectedDecks g \<and>
   selectedDecks (showReviewScreen g) = selectedDecks g \<and>
   selectedDecks (showFinalWinner g) = selectedDecks g \<and>
   (reachable r \<longrightarrow> distinct (selectedDecks r) \<and> 1 \<le> length (selectedDecks r))"
proof (intro conjI impI)
  show "selectedDecks (state_of (startRound g)) = selectedDecks g"
    "selectedDecks (state_of (updateCard g)) = selectedDecks g"
    "selectedDecks (state_of (nextCard rnd g)) = selectedDecks g"
    "selectedDecks (state_of (endRound g)) = selectedDecks g"
    "selectedDecks (updateTimer g) = selectedDecks g"
    by (rule startRound_decks updateCard_decks nextCard_decks endRound_decks updateTimer_decks)+
  show "selectedDecks (showReviewScreen g) = selectedDecks g"
    "selectedDecks (showFinalWinner g) = selectedDecks g"
    by (simp_all add: showReviewScreen_def showFinalWinner_def clearInterval_def)
  have one: "Suc 0 \<le> length xs \<longleftrightarrow> xs \<noteq> []" for xs :: "string list"
    by (cases xs) simp_all
  show "toggleDeck deck g = (False, g)" if "selectedDecks g = [deck]"
    using that by (simp add: toggleDeck_def)
  show "toggleDeck deck g = (True, g\<lparr>selectedDecks := removeAll deck (selectedDecks g)\<rparr>)"
    if "deck \<in> set (selectedDecks g) \<and> 1 < length (selectedDecks g)"
    using that by (simp add: toggleDeck_def)
  show "toggleDeck deck g = (True, g\<lparr>selectedDecks := selectedDecks g @ [deck]\<rparr>)"
    if "deck \<notin> set (selectedDecks g)"
    using that by (simp add: toggleDeck_def)
  show "distinct (selectedDecks (state_of (step e g)))"
    "1 \<le> length (selectedDecks (state_of (step e g)))"
    if "distinct (selectedDecks g) \<and> 1 \<le> length (selectedDecks g)"
    using step_decks [of g e] that by (simp_all add: one)
  show "distinct (selectedDecks r)" "1 \<le> length (selectedDecks r)" if "reachable r"
    using reachable_decks [OF that] by (simp_all add: one)
  show "selectedDecks (state_of (step e g)) = selectedDecks g" if "\<forall>d. e \<noteq> DeckOption d"
  proof (cases e)
    case (DeckOption d)
    with that show ?thesis by simp
  next
    case (Fire h)
    then show ?thesis
      by (simp add: countdownTick_decks updateTimer_decks split: option.splits callback.splits)
  qed (simp_all add: endRound_decks startCountdown_decks skipCountdown_decks
      setupAndStartGame_decks handleCorrect_decks handlePass_decks confirmScore_decks
      togglePause_decks other_decks)
qed

text \<open>
  C4 on the sample session: deselecting \<open>naija\<close>, the only selected deck, is refused;
  once \<open>global\<close> is selected too, \<open>naija\<close> can go.
\<close>

theorem selectedDecks_never_empty_witness:
  "selectedDecks demoStart = [''naija''] \<and> reachable demoPlaying \<and>
   fst (toggleDeck ''naija'' demoStart) = False \<and>
   selectedDecks (snd (toggleDeck ''naija'' demoStart)) = [''naija''] \<and>
   selectedDecks (state_of (step (DeckOption ''global'') demoStart)) = [''naija'', ''global''] \<and>
   1 \<le> length (selectedDecks demoPlaying)"
proof -
  have start: "selectedDecks demoStart = [''naija'']"
    by (simp add: demoStart_def newGame_def)
  have playing: "reachable demoPlaying"
    unfolding demoPlaying_def by (rule reachable_demo)
  have added: "selectedDecks (state_of (step (DeckOption ''global'') demoStart)) = [''naija'', ''global'']"
    by (simp add: toggleDeck_def start)
  show ?thesis
    using start playing added
      selectedDecks_never_empty [of demoStart "''naija''" "DeckOption ''global''" keepOrder
        demoPlaying]
    by simp
qed

text \<open>
  C5. Where the selected decks together hold at least one card, \<open>nextCard\<close> returns with
  a card at the cursor: the cursor is below the length of the pool. Where the incremented
  cursor reaches the length of the pool, the pool is rebuilt as the shuffle of the cards
  of the selected decks, deck after deck (the same cards, each as often), and the cursor
  is 0; otherwise the pool stays and the cursor moves on by one.
\<close>

theorem nextCard_serves_a_card:
  assumes "activeCards (cardData g) (selectedDecks g) \<noteq> []"
  shows "\<exists>g' c. nextCard rnd g = Returned g' \<and>
           currentCardIndex g' < length (shuffledCards g') \<and>
           at (shuffledCards g') (currentCardIndex g') = Some c \<and>
           updateCard g' = Returned g' \<and>
           (if length (shuffledCards g) \<le> currentCardIndex g + 1
            then shuffledCards g' =
                   shuffleArray rnd (concat (map (\<lambda>deck. case cardData g deck of None \<Rightarrow> []
                        | Some cs \<Rightarrow> map (stamp deck) cs) (selectedDecks g))) \<and>
                 mset (shuffledCards g') = mset (activeCards (cardData g) (selectedDecks g)) \<and>
                 currentCardIndex g' = 0
            else shuffledCards g' = shuffledCards g \<and>
                 currentCardIndex g' = currentCardIndex g + 1)"
proof -
  let ?g' = "if length (shuffledCards g) \<le> currentCardIndex g + 1
      then g\<lparr>currentCardIndex := 0,
             shuffledCards := shuffleArray rnd (activeCards (cardData g) (selectedDecks g))\<rparr>
      else g\<lparr>currentCardIndex := currentCardIndex g + 1\<rparr>"
  have ret: "nextCard rnd g = Returned ?g'"
    using assms by (rule nextCard_cards)
  have cursor: "currentCardIndex ?g' < length (shuffledCards ?g')"
    using assms by simp
  then have shown: "at (shuffledCards ?g') (currentCardIndex ?g') =
      Some (shuffledCards ?g' ! currentCardIndex ?g')"
    by (simp only: at_def if_True)
  have pool: "if length (shuffledCards g) \<le> currentCardIndex g + 1
            then shuffledCards ?g' =
                   shuffleArray rnd (concat (map (\<lambda>deck. case cardData g deck of None \<Rightarrow> []
                        | Some cs \<Rightarrow> map (stamp deck) cs) (selectedDecks g))) \<and>
                 mset (shuffledCards ?g') = mset (activeCards (cardData g) (selectedDecks g)) \<and>
                 currentCardIndex ?g' = 0
            else shuffledCards ?g' = shuffledCards g \<and>
                 currentCardIndex ?g' = currentCardIndex g + 1"
    by (simp add: activeCards_concat [symmetric])
  from ret cursor shown updateCard_shown [OF cursor] pool show ?thesis by blast
qed

text \<open>
  C5 on the sample session: the pool of one card is used up by every draw, and every draw
  rebuilds it and serves the card again.
\<close>

theorem nextCard_serves_a_card_witness:
  "activeCards (cardData demoPlaying) (selectedDecks demoPlaying) \<noteq> [] \<and>
   length (shuffledCards demoPlaying) \<le> currentCardIndex demoPlaying + 1 \<and>
   currentCardIndex (state_of (nextCard keepOrder demoPlaying)) = 0 \<and>
   map targetWord (shuffledCards (state_of (nextCard keepOrder demoPlaying))) = [''Lagos'']"
proof -
  have cards: "activeCards (cardData demoPlaying) (selectedDecks demoPlaying) \<noteq> []"
    by code_simp
  have used: "length (shuffledCards demoPlaying) \<le> currentCardIndex demoPlaying + 1"
    by code_simp
  have pool: "map targetWord (shuffledCards (state_of (nextCard keepOrder demoPlaying))) = [''Lagos'']"
    by code_simp
  from nextCard_serves_a_card [OF cards, of keepOrder] used obtain g' where
    "nextCard keepOrder demoPlaying = Returned g'" "currentCardIndex g' = 0"
    by auto
  with cards used pool show ?thesis by simp
qed

text \<open>
  C6, amended. \<open>toggleCardStatus(index)\<close> flips the entry at \<open>index\<close> of the round
  record between \<open>correct\<close> and \<open>skipped\<close> and changes nothing else, in whatever phase the
  game is: the method does not look at the phase. For an index that is negative or not
  below the length of the record it changes nothing and throws nothing.
\<close>

theorem toggleCardStatus_flips:
  "(0 \<le> index \<and> nat index < length (roundCards g) \<longrightarrow>
      toggleCardStatus index g =
        g\<lparr>roundCards := (roundCards g)[nat index := (roundCards g ! nat index)
             \<lparr>status := (if status (roundCards g ! nat index) = Correct then Skipped else Correct)\<rparr>]\<rparr> \<and>
      status (roundCards (toggleCardStatus index g) ! nat index) \<noteq> status (roundCards g ! nat index) \<and>
      toggleCardStatus index (toggleCardStatus index g) = g) \<and>
   (index < 0 \<or> length (roundCards g) \<le> nat index \<longrightarrow> toggleCardStatus index g = g) \<and>
   state (toggleCardStatus index g) = state g"
proof (intro conjI impI)
  assume range: "0 \<le> index \<and> nat index < length (roundCards g)"
  let ?i = "nat index"
  let ?x = "roundCards g ! ?i"
  let ?y = "?x\<lparr>status := (if status ?x = Correct then Skipped else Correct)\<rparr>"
  show flip: "toggleCardStatus index g = g\<lparr>roundCards := (roundCards g)[?i := ?y]\<rparr>"
    using range by (simp add: toggleCardStatus_def at_def)
  show "status (roundCards (toggleCardStatus index g) ! ?i) \<noteq> status ?x"
    using range by (simp add: flip)
  have again: "?y\<lparr>status := (if status ?y = Correct then Skipped else Correct)\<rparr> = ?x"
    by (cases "status ?x") simp_all
  have "toggleCardStatus index (g\<lparr>roundCards := (roundCards g)[?i := ?y]\<rparr>) =
      g\<lparr>roundCards := (roundCards g)[?i := ?x]\<rparr>"
    using range again by (simp add: toggleCardStatus_def at_def)
  then show "toggleCardStatus index (toggleCardStatus index g) = g"
    by (simp add: flip)
next
  assume "index < 0 \<or> length (roundCards g) \<le> nat index"
  then show "toggleCardStatus index g = g"
    by (auto simp: toggleCardStatus_def at_def)
next
  show "state (toggleCardStatus index g) = state g"
    by (simp add: toggleCardStatus_def split: option.splits)
qed

text \<open>
  C6 on the sample session, on the review screen: the one entry, \<open>correct\<close>, becomes
  \<open>skipped\<close>; the indices 1 and \<open>-1\<close> change nothing.
\<close>

theorem toggleCardStatus_flips_witness:
  "0 \<le> (0::int) \<and> nat 0 < length (roundCards demoReview) \<and> state demoReview = REVIEW \<and>
   map status (roundCards demoReview) = [Correct] \<and>
   map status (roundCards (toggleCardStatus 0 demoReview)) = [Skipped] \<and>
   length (roundCards demoReview) \<le> nat 1 \<and>
   toggleCardStatus 1 demoReview = demoReview \<and> toggleCardStatus (- 1) demoReview = demoReview"
proof -
  have len: "length (roundCards demoReview) = 1" and st: "state demoReview = REVIEW"
    and before: "map status (roundCards demoReview) = [Correct]"
    by code_simp+
  from before have entry: "status (roundCards demoReview ! 0) = Correct"
    by (cases "roundCards demoReview") simp_all
  show ?thesis
    using len st before entry toggleCardStatus_flips [of 0 demoReview]
      toggleCardStatus_flips [of 1 demoReview] toggleCardStatus_flips [of "- 1" demoReview]
    by (cases "roundCards demoReview") (simp_all add: map_update)
qed

text \<open>
  C6 as stated fails: during play, before any review, \<open>window.toggleCardStatus(0)\<close> turns
  the entry of the answer just given from \<open>correct\<close> to \<open>skipped\<close>.
\<close>

theorem toggleCardStatus_only_in_review_counterexample:
  "reachable demoAnswered \<and> state demoAnswered = PLAYING \<and>
   map status (roundCards demoAnswered) = [Correct] \<and>
   map status (roundCards (toggleCardStatus 0 demoAnswered)) = [Skipped] \<and>
   toggleCardStatus 0 demoAnswered \<noteq> demoAnswered"
proof -
  have "reachable demoAnswered"
    unfolding demoAnswered_def by (rule reachable_demo)
  moreover have "state demoAnswered = PLAYING" "map status (roundCards demoAnswered) = [Correct]"
    "map status (roundCards (toggleCardStatus 0 demoAnswered)) = [Skipped]"
    by code_simp+
  ultimately show ?thesis by auto
qed

text \<open>
  C7, amended. \<open>setupAndStartGame(teamCount)\<close> builds \<open>teamCount\<close> teams, team \<open>i\<close> (from
  0) named \<open>Team i+1\<close> with score 0, and sets the turn to team 0 and the completed rounds
  to 0, also when it goes on to refuse the game for want of cards. Team \<open>i\<close> gets the
  colour \<open>TEAM_COLORS[i]\<close> for \<open>i\<close> below the length of the palette, which is 4, and no
  colour (\<open>undefined\<close>) from there on: for up to four teams this is the colour at
  \<open>i mod 4\<close>.
\<close>

theorem setupAndStartGame_builds_teams:
  "numberOfTeams (state_of (setupAndStartGame n rnd g)) = n \<and>
   length (teams (state_of (setupAndStartGame n rnd g))) = n \<and>
   currentTeamIndex (state_of (setupAndStartGame n rnd g)) = Num 0 \<and>
   totalRoundsCompleted (state_of (setupAndStartGame n rnd g)) = 0 \<and>
   (\<forall>i < n. name (teams (state_of (setupAndStartGame n rnd g)) ! i) = ''Team '' @ showNat (i + 1) \<and>
       score (teams (state_of (setupAndStartGame n rnd g)) ! i) = 0 \<and>
       color (teams (state_of (setupAndStartGame n rnd g)) ! i) =
         (if i < length TEAM_COLORS then Some (TEAM_COLORS ! i) else None)) \<and>
   (n \<le> length TEAM_COLORS \<longrightarrow>
      (\<forall>i < n. color (teams (state_of (setupAndStartGame n rnd g)) ! i) =
         Some (TEAM_COLORS ! (i mod length TEAM_COLORS)))) \<and>
   length TEAM_COLORS = 4"
  by (simp add: setupAndStartGame_teams newTeam_def at_def TEAM_COLORS_def)

text \<open>C7 for three teams: the third is \<open>Team 3\<close>, with no points and the third colour.\<close>

theorem setupAndStartGame_builds_teams_witness:
  "(2::nat) < 3 \<and> (3::nat) \<le> length TEAM_COLORS \<and>
   length (teams (state_of (setupAndStartGame 3 keepOrder demoStart))) = 3 \<and>
   name (teams (state_of (setupAndStartGame 3 keepOrder demoStart)) ! 2) = ''Team 3'' \<and>
   score (teams (state_of (setupAndStartGame 3 keepOrder demoStart)) ! 2) = 0 \<and>
   color (teams (state_of (setupAndStartGame 3 keepOrder demoStart)) ! 2) = Some ''var(--team3-color)''"
proof -
  have three: "showNat (2 + 1) = ''3''"
    by (simp add: showNat.simps digit_def)
  have palette: "length TEAM_COLORS = 4" "TEAM_COLORS ! 2 = ''var(--team3-color)''"
    by (simp_all add: TEAM_COLORS_def)
  have "(2::nat) < 3" by simp
  with setupAndStartGame_builds_teams [of 3 keepOrder demoStart] three palette
  show ?thesis by simp
qed

text \<open>
  C7 as stated fails for five teams: the fifth team has no colour, where the palette taken
  cyclically would give it the first colour again.
\<close>

theorem cyclic_team_colors_counterexample:
  "length (teams (state_of (setupAndStartGame 5 keepOrder demoStart))) = 5 \<and>
   color (teams (state_of (setupAndStartGame 5 keepOrder demoStart)) ! 4) = None \<and>
   TEAM_COLORS ! (4 mod length TEAM_COLORS) = ''var(--team1-color)'' \<and>
   color (teams (state_of (setupAndStartGame 5 keepOrder demoStart)) ! 4) \<noteq>
     Some (TEAM_COLORS ! (4 mod length TEAM_COLORS))"
proof -
  have "color (teams (state_of (setupAndStartGame 5 keepOrder demoStart)) ! 4) = None"
    "length (teams (state_of (setupAndStartGame 5 keepOrder demoStart))) = 5"
    by code_simp+
  then show ?thesis by (simp add: TEAM_COLORS_def)
qed

text \<open>
  C8. While the session is paused, no number of ticks of the round timer changes anything:
  \<open>timeLeft\<close> stays and the phase does not become \<open>REVIEW\<close>; the interval of the paused
  round timer is cleared and fires no more. Outside \<open>PLAYING\<close>, \<open>togglePause\<close> does
  nothing. In \<open>PLAYING\<close> it sets \<open>isPaused\<close> and clears the interval of the round timer,
  or resets \<open>isPaused\<close> and registers a new interval whose handle it stores in
  \<open>timerInterval\<close>; beside that only the pause overlay changes. After a pause, any number
  of ticks and a resume, the next tick counts down from the \<open>timeLeft\<close> of the moment of
  the pause.
\<close>

theorem pause_freezes_round_timer:
  "(isPaused g \<longrightarrow> (updateTimer ^^ n) g = g) \<and>
   (isPaused g \<and> map_of (intervals g) h = Some TimerTick \<longrightarrow> step (Fire h) g = Returned g) \<and>
   (state g \<noteq> PLAYING \<longrightarrow> togglePause g = g) \<and>
   (state g = PLAYING \<and> \<not> isPaused g \<longrightarrow>
      togglePause g =
        g\<lparr>isPaused := True,
          intervals := filter (\<lambda>(k, cb). Some k \<noteq> timerInterval g) (intervals g),
          pauseOverlay := map_option (\<lambda>d. ''flex'') (pauseOverlay g)\<rparr> \<and>
      (timerInterval g = Some h \<longrightarrow> step (Fire h) (togglePause g) = Returned (togglePause g)) \<and>
      (updateTimer ^^ n) (togglePause g) = togglePause g \<and>
      timeLeft ((updateTimer ^^ n) (togglePause g)) = timeLeft g \<and>
      state ((updateTimer ^^ n) (togglePause g)) = PLAYING \<and>
      \<not> isPaused (togglePause ((updateTimer ^^ n) (togglePause g))) \<and>
      timeLeft (togglePause ((updateTimer ^^ n) (togglePause g))) = timeLeft g \<and>
      timeLeft (updateTimer (togglePause ((updateTimer ^^ n) (togglePause g)))) = timeLeft g - 1) \<and>
   (state g = PLAYING \<and> isPaused g \<longrightarrow>
      togglePause g =
        g\<lparr>isPaused := False,
          pauseOverlay := map_option (\<lambda>d. ''none'') (pauseOverlay g),
          intervals := intervals g @ [(nextHandle g, TimerTick)],
          nextHandle := nextHandle g + 1,
          timerInterval := Some (nextHandle g)\<rparr>)"
proof (intro conjI impI)
  show "(updateTimer ^^ n) g = g" if "isPaused g"
    using that by (rule updateTimer_paused)
  show "step (Fire h) g = Returned g" if "isPaused g \<and> map_of (intervals g) h = Some TimerTick"
    using that by (simp add: updateTimer_def)
  show "togglePause g = g" if "state g \<noteq> PLAYING"
    using that by (simp add: togglePause_def)
  show "togglePause g =
        g\<lparr>isPaused := False,
          pauseOverlay := map_option (\<lambda>d. ''none'') (pauseOverlay g),
          intervals := intervals g @ [(nextHandle g, TimerTick)],
          nextHandle := nextHandle g + 1,
          timerInterval := Some (nextHandle g)\<rparr>"
    if "state g = PLAYING \<and> isPaused g"
    using that by (simp add: togglePause_def Let_def setInterval_def)
next
  assume playing: "state g = PLAYING \<and> \<not> isPaused g"
  let ?p = "g\<lparr>isPaused := True,
          intervals := filter (\<lambda>(k, cb). Some k \<noteq> timerInterval g) (intervals g),
          pauseOverlay := map_option (\<lambda>d. ''flex'') (pauseOverlay g)\<rparr>"
  show pause: "togglePause g = ?p"
    using playing by (simp add: togglePause_def Let_def clearInterval_def)
  show "step (Fire h) (togglePause g) = Returned (togglePause g)" if "timerInterval g = Some h"
    using that by (simp add: pause map_of_cleared)
  have paused: "isPaused (togglePause g)"
    by (simp add: pause)
  show frozen: "(updateTimer ^^ n) (togglePause g) = togglePause g"
    using paused by (rule updateTimer_paused)
  show "timeLeft ((updateTimer ^^ n) (togglePause g)) = timeLeft g"
    "state ((updateTimer ^^ n) (togglePause g)) = PLAYING"
    using playing by (simp_all add: frozen) (simp_all add: pause)
  have resume: "togglePause ?p = ?p\<lparr>isPaused := False,
          pauseOverlay := map_option (\<lambda>d. ''none'') (pauseOverlay ?p),
          intervals := intervals ?p @ [(nextHandle ?p, TimerTick)],
          nextHandle := nextHandle ?p + 1,
          timerInterval := Some (nextHandle ?p)\<rparr>"
    using playing by (simp add: togglePause_def Let_def setInterval_def)
  show "\<not> isPaused (togglePause ((updateTimer ^^ n) (togglePause g)))"
    "timeLeft (togglePause ((updateTimer ^^ n) (togglePause g))) = timeLeft g"
    unfolding frozen unfolding pause resume by simp_all
  show "timeLeft (updateTimer (togglePause ((updateTimer ^^ n) (togglePause g)))) = timeLeft g - 1"
    unfolding frozen unfolding pause resume
    by (simp add: updateTimer_def Let_def showReviewScreen_def clearInterval_def)
qed

text \<open>
  C8 on the sample session: paused with 30 seconds left, the round has 30 seconds left
  after a hundred ticks and is still being played; resumed, the next tick leaves 29.
\<close>

theorem pause_freezes_round_timer_witness:
  "state demoPlaying = PLAYING \<and> \<not> isPaused demoPlaying \<and> timeLeft demoPlaying = 30 \<and>
   timeLeft ((updateTimer ^^ 100) (togglePause demoPlaying)) = 30 \<and>
   state ((updateTimer ^^ 100) (togglePause demoPlaying)) = PLAYING \<and>
   timeLeft (updateTimer (togglePause ((updateTimer ^^ 100) (togglePause demoPlaying)))) = 29 \<and>
   state demoReady \<noteq> PLAYING \<and> togglePause demoReady = demoReady"
proof -
  have playing: "state demoPlaying = PLAYING \<and> \<not> isPaused demoPlaying"
    and left: "timeLeft demoPlaying = 30"
    and ready: "state demoReady \<noteq> PLAYING"
    by code_simp+
  from pause_freezes_round_timer [of demoPlaying 100 2] playing
  have "timeLeft ((updateTimer ^^ 100) (togglePause demoPlaying)) = timeLeft demoPlaying"
    "state ((updateTimer ^^ 100) (togglePause demoPlaying)) = PLAYING"
    "timeLeft (updateTimer (togglePause ((updateTimer ^^ 100) (togglePause demoPlaying)))) =
       timeLeft demoPlaying - 1"
    by blast+
  moreover from pause_freezes_round_timer [of demoReady 0 2] ready
  have "togglePause demoReady = demoReady"
    by blast
  ultimately show ?thesis
    using playing left ready by simp
qed

text \<open>
  C9. Where the selected decks yield no card (each selected deck is missing from the card
  data or empty), \<open>setupAndStartGame\<close> shows the alert \<open>Please select at least one deck!\<close>
  and returns: the phase is the one it was, so it does not become \<open>GET_READY\<close>, the
  countdown is not reset and no interval is registered. Where they yield a card, no alert
  is shown and the phase becomes \<open>GET_READY\<close>.
\<close>

theorem setup_without_cards_is_refused:
  "(activeCards (cardData g) (selectedDecks g) = [] \<longleftrightarrow>
      (\<forall>deck \<in> set (selectedDecks g). cardData g deck = None \<or> cardData g deck = Some [])) \<and>
   (activeCards (cardData g) (selectedDecks g) = [] \<longrightarrow>
      (\<exists>g'. setupAndStartGame n rnd g = Returned g' \<and>
         alerts g' = alerts g @ [''Please select at least one deck!''] \<and>
         state g' = state g \<and> (state g \<noteq> GET_READY \<longrightarrow> state g' \<noteq> GET_READY) \<and>
         countdownTime g' = countdownTime g \<and> countdownInterval g' = countdownInterval g \<and>
         intervals g' = intervals g \<and> nextHandle g' = nextHandle g)) \<and>
   (activeCards (cardData g) (selectedDecks g) \<noteq> [] \<longrightarrow>
      state (state_of (setupAndStartGame n rnd g)) = GET_READY \<and>
      alerts (state_of (setupAndStartGame n rnd g)) = alerts g)"
proof (intro conjI impI)
  have "activeCards cd decks = [] \<longleftrightarrow> (\<forall>deck \<in> set decks. cd deck = None \<or> cd deck = Some [])"
    for cd decks
    by (induction decks) (auto split: option.splits)
  then show "activeCards (cardData g) (selectedDecks g) = [] \<longleftrightarrow>
      (\<forall>deck \<in> set (selectedDecks g). cardData g deck = None \<or> cardData g deck = Some [])" .
  show "\<exists>g'. setupAndStartGame n rnd g = Returned g' \<and>
         alerts g' = alerts g @ [''Please select at least one deck!''] \<and>
         state g' = state g \<and> (state g \<noteq> GET_READY \<longrightarrow> state g' \<noteq> GET_READY) \<and>
         countdownTime g' = countdownTime g \<and> countdownInterval g' = countdownInterval g \<and>
         intervals g' = intervals g \<and> nextHandle g' = nextHandle g"
    if "activeCards (cardData g) (selectedDecks g) = []"
    by (simp add: setupAndStartGame_no_cards [OF that])
  show "state (state_of (setupAndStartGame n rnd g)) = GET_READY"
    "alerts (state_of (setupAndStartGame n rnd g)) = alerts g"
    if "activeCards (cardData g) (selectedDecks g) \<noteq> []"
    using setupAndStartGame_cards [OF that] by simp_all
qed

text \<open>
  C9 on the sample session: with only the empty deck \<open>global\<close> selected the team selection
  screen stays, under the alert; with \<open>naija\<close> selected the game gets ready.
\<close>

theorem setup_without_cards_is_refused_witness:
  "activeCards (cardData demoNoCards) (selectedDecks demoNoCards) = [] \<and>
   state demoNoCards = TEAM_SELECTION \<and>
   state (state_of (setupAndStartGame 2 keepOrder demoNoCards)) = TEAM_SELECTION \<and>
   alerts (state_of (setupAndStartGame 2 keepOrder demoNoCards)) = [''Please select at least one deck!''] \<and>
   intervals (state_of (setupAndStartGame 2 keepOrder demoNoCards)) = [] \<and>
   activeCards (cardData demoStart) (selectedDecks demoStart) \<noteq> [] \<and>
   state (state_of (setupAndStartGame 2 keepOrder demoStart)) = GET_READY"
proof -
  have none: "activeCards (cardData demoNoCards) (selectedDecks demoNoCards) = []"
    and before: "state demoNoCards = TEAM_SELECTION" "alerts demoNoCards = []"
      "intervals demoNoCards = []"
    and some: "activeCards (cardData demoStart) (selectedDecks demoStart) \<noteq> []"
    by code_simp+
  from setup_without_cards_is_refused [of demoNoCards 2 keepOrder] none obtain g' where
    "setupAndStartGame 2 keepOrder demoNoCards = Returned g'"
    "alerts g' = alerts demoNoCards @ [''Please select at least one deck!'']"
    "state g' = state demoNoCards" "intervals g' = intervals demoNoCards"
    by blast
  with none before some setup_without_cards_is_refused [of demoStart 2 keepOrder]
  show ?thesis by simp
qed

text \<open>
  C10. Where the selected decks yield no card, \<open>setupAndStartGame\<close> returns the session
  with the alert shown and with \<open>numberOfTeams\<close>, the team list (fresh names and colours,
  every score 0), \<open>currentTeamIndex\<close> and \<open>totalRoundsCompleted\<close> already overwritten,
  and every other field as it was: the refused call is not without effect on the teams.
\<close>

theorem setup_without_cards_is_not_atomic:
  assumes "activeCards (cardData g) (selectedDecks g) = []"
  shows "setupAndStartGame n rnd g =
           Returned (g\<lparr>numberOfTeams := n, teams := map newTeam [0..<n],
                       currentTeamIndex := Num 0, totalRoundsCompleted := 0,
                       alerts := alerts g @ [''Please select at least one deck!'']\<rparr>) \<and>
         (\<forall>t \<in> set (teams (state_of (setupAndStartGame n rnd g))). score t = 0) \<and>
         (numberOfTeams g \<noteq> n \<or> teams g \<noteq> map newTeam [0..<n] \<or> currentTeamIndex g \<noteq> Num 0 \<or>
          totalRoundsCompleted g \<noteq> 0 \<longrightarrow>
            state_of (setupAndStartGame n rnd g) \<noteq>
              g\<lparr>alerts := alerts g @ [''Please select at least one deck!'']\<rparr>)"
proof (intro conjI impI)
  let ?g' = "g\<lparr>numberOfTeams := n, teams := map newTeam [0..<n],
                       currentTeamIndex := Num 0, totalRoundsCompleted := 0,
                       alerts := alerts g @ [''Please select at least one deck!'']\<rparr>"
  show ret: "setupAndStartGame n rnd g = Returned ?g'"
    using assms by (rule setupAndStartGame_no_cards)
  show "\<forall>t \<in> set (teams (state_of (setupAndStartGame n rnd g))). score t = 0"
    by (simp add: ret newTeam_def)
  assume changed: "numberOfTeams g \<noteq> n \<or> teams g \<noteq> map newTeam [0..<n] \<or>
    currentTeamIndex g \<noteq> Num 0 \<or> totalRoundsCompleted g \<noteq> 0"
  show "state_of (setupAndStartGame n rnd g) \<noteq>
      g\<lparr>alerts := alerts g @ [''Please select at least one deck!'']\<rparr>"
  proof
    assume "state_of (setupAndStartGame n rnd g) =
      g\<lparr>alerts := alerts g @ [''Please select at least one deck!'']\<rparr>"
    then have same: "?g' = g\<lparr>alerts := alerts g @ [''Please select at least one deck!'']\<rparr>"
      by (simp add: ret)
    have "numberOfTeams g = n" using arg_cong [OF same, of numberOfTeams] by simp
    moreover have "teams g = map newTeam [0..<n]" using arg_cong [OF same, of teams] by simp
    moreover have "currentTeamIndex g = Num 0" using arg_cong [OF same, of currentTeamIndex] by simp
    moreover have "totalRoundsCompleted g = 0"
      using arg_cong [OF same, of totalRoundsCompleted] by simp
    ultimately show False using changed by simp
  qed
qed

text \<open>
  C10 on the sample session: on the scoreboard after the first round, with one point for
  team 0, the turn at team 1 and one round completed, a refused setup for three teams
  leaves three teams without points, the turn at team 0 and no round completed, under
  the scoreboard that is still shown.
\<close>

theorem setup_without_cards_is_not_atomic_witness:
  "activeCards (cardData demoRoundOver) (selectedDecks demoRoundOver) = [] \<and>
   map score (teams demoRoundOver) = [1, 0] \<and> currentTeamIndex demoRoundOver = Num 1 \<and>
   totalRoundsCompleted demoRoundOver = 1 \<and> state demoRoundOver = ROUND_OVER \<and>
   map score (teams (state_of (setupAndStartGame 3 keepOrder demoRoundOver))) = [0, 0, 0] \<and>
   currentTeamIndex (state_of (setupAndStartGame 3 keepOrder demoRoundOver)) = Num 0 \<and>
   totalRoundsCompleted (state_of (setupAndStartGame 3 keepOrder demoRoundOver)) = 0 \<and>
   numberOfTeams (state_of (setupAndStartGame 3 keepOrder demoRoundOver)) = 3 \<and>
   state (state_of (setupAndStartGame 3 keepOrder demoRoundOver)) = ROUND_OVER"
proof -
  have none: "activeCards (cardData demoRoundOver) (selectedDecks demoRoundOver) = []"
    and before: "map score (teams demoRoundOver) = [1, 0]" "currentTeamIndex demoRoundOver = Num 1"
      "totalRoundsCompleted demoRoundOver = 1" "state demoRoundOver = ROUND_OVER"
    by code_simp+
  have fresh: "map score (map newTeam [0..<3]) = [0, 0, 0]"
    by (simp add: newTeam_def upt_conv_Cons)
  show ?thesis
    using none before fresh setup_without_cards_is_not_atomic [OF none, of 3 keepOrder]
    by simp
qed

end
